(* ===== verification/Prelude.thy ===== *)
theory Prelude
  imports Main "HOL-Library.Word" "HOL-Library.Signed_Division"
begin

text \<open>
  Shared ground of the development: the machine integer types of the Rust source, the faults an
  operation can end with, the state-and-fault composition that models \<open>&mut self\<close> methods
  returning \<open>Result\<close>, and the generic facts on words, lists and that composition which the
  component theories use.
\<close>

unbundle bit_operations_syntax

section \<open>Machine integers\<close>

type_synonym u8 = "8 word"
type_synonym u16 = "16 word"
type_synonym u32 = "32 word"
type_synonym u64 = "64 word"
type_synonym i64 = "64 word"
type_synonym i128 = "128 word"

text \<open>
  Plain \<open>+\<close>, \<open>-\<close>, \<open>*\<close> of the source are modelled with the wrap-around of the release profile
  (\<open>Cargo.toml\<close> leaves overflow checks off there). A shift whose amount the source does not
  mask itself is reduced modulo the width, as the release profile does.
\<close>

definition wshl :: "'a::len word \<Rightarrow> nat \<Rightarrow> 'a word" where
  "wshl w n = push_bit (n mod LENGTH('a)) w"

definition wshr :: "'a::len word \<Rightarrow> nat \<Rightarrow> 'a word" where
  "wshr w n = drop_bit (n mod LENGTH('a)) w"

text \<open>\<open>u64::checked_add\<close>.\<close>

definition checked_add :: "u64 \<Rightarrow> u64 \<Rightarrow> u64 option" where
  "checked_add a b = (if unat a + unat b < 2 ^ 64 then Some (a + b) else None)"

text \<open>\<open>to_le_bytes\<close> and \<open>from_le_bytes\<close> of the unsigned integer types.\<close>

definition to_le_bytes :: "nat \<Rightarrow> u64 \<Rightarrow> u8 list" where
  "to_le_bytes n v = map (\<lambda>i. ucast (drop_bit (8 * i) v)) [0..<n]"

primrec from_le_bytes :: "u8 list \<Rightarrow> u64" where
  "from_le_bytes [] = 0"
| "from_le_bytes (b # bs) = ucast b OR push_bit 8 (from_le_bytes bs)"

section \<open>Faults\<close>

text \<open>
  \<^verbatim>\<open>EmuError\<close> (\<^verbatim>\<open>error.rs\<close>) carries a formatted message. The model has one constructor per
  message of the source, with the values the message prints as its arguments.
\<close>

datatype emu_error =
    Invalid_range u64 u64
  | Overflow_range u64 u64
  | Cannot_fit u64 u64 "(u64 \<times> u64) list"
  | No_device_mapped
  | No_device_covers u64 u64
  | Invalid_address_size u64
  | Clint_read_size u8
  | Clint_write_size u8
  | Plic_access_size u8
  | Uart_read_size u8
  | Uart_write_size u8
  | Uart_illegal_write
  | Uart_ier_unhandled
  | Virtio_read_size u8 u64
  | Virtio_write_size u8 u64
  | Unsupported_satp_mode u64
  | Cached_permission_denied u64 u64
  | Permission_denied u64 u64
  | Walk_exhausted u64
  | Invalid_pte u64 nat u64 u64
  | Reserved_pte u64
  | Misaligned_superpage u64
  | Not_implemented u32 u32 u64
  | Not_implemented_c u16 u64
  | Zero_immediate
  | Ncpu_zero
  | Ncpu_exceeds u64 u64

text \<open>The ways the source can panic where the model reaches the panicking expression.\<close>

datatype panic =
    Index_out_of_bounds
  | Slice_out_of_range
  | Already_borrowed
  | Unwrap_none
  | Capacity_overflow
  | Unreachable
  | Expect_failed

datatype fault = Emu emu_error | Panic panic

type_synonym 'a res = "fault + 'a"

definition error :: "emu_error \<Rightarrow> 'a res" where
  "error e = Inl (Emu e)"

definition is_panic :: "'a res \<Rightarrow> bool" where
  "is_panic r = (case r of Inl (Panic _) \<Rightarrow> True | _ \<Rightarrow> False)"

section \<open>Operations on a state\<close>

text \<open>
  A method on \<open>&mut self\<close> that returns \<open>Result<T, EmuError>\<close> is a function from the state to the
  result and the new state. The new state is there on the error path too: what a method changed
  before it returned \<open>Err\<close> stays changed, and the callers of \<^verbatim>\<open>run\<close> look at it.
\<close>

type_synonym ('s, 'a) op = "'s \<Rightarrow> 'a res \<times> 's"

definition ok :: "'a \<Rightarrow> ('s, 'a) op" where
  "ok x = (\<lambda>s. (Inr x, s))"

definition fail :: "fault \<Rightarrow> ('s, 'a) op" where
  "fail e = (\<lambda>s. (Inl e, s))"

text \<open>Sequencing with the \<open>?\<close> operator: stop at the first fault.\<close>

definition and_then :: "('s, 'a) op \<Rightarrow> ('a \<Rightarrow> ('s, 'b) op) \<Rightarrow> ('s, 'b) op" where
  "and_then m f = (\<lambda>s. case m s of (Inl e, t) \<Rightarrow> (Inl e, t) | (Inr x, t) \<Rightarrow> f x t)"

text \<open>A pure fallible computation as an operation.\<close>

definition lift_res :: "'a res \<Rightarrow> ('s, 'a) op" where
  "lift_res r = (\<lambda>s. (r, s))"

text \<open>A state query and a state change.\<close>

definition gets :: "('s \<Rightarrow> 'a) \<Rightarrow> ('s, 'a) op" where
  "gets f = (\<lambda>s. (Inr (f s), s))"

definition modify :: "('s \<Rightarrow> 's) \<Rightarrow> ('s, unit) op" where
  "modify f = (\<lambda>s. (Inr (), f s))"

text \<open>An operation on the second component of a pair state.\<close>

definition on_snd :: "('b, 'a) op \<Rightarrow> ('c \<times> 'b, 'a) op" where
  "on_snd m = (\<lambda>(c, b). case m b of (r, b') \<Rightarrow> (r, (c, b')))"

named_theorems op_defs "the combinators that operations are written with"

lemmas op_simps [op_defs] =
  ok_def fail_def and_then_def lift_res_def gets_def modify_def on_snd_def error_def

lemma and_then_ok [simp]: "and_then (ok x) f = f x"
  by (simp add: and_then_def ok_def)

lemma and_then_fail [simp]: "and_then (fail e) f = fail e"
  by (simp add: and_then_def fail_def)

lemma and_then_assoc: "and_then (and_then m f) g = and_then m (\<lambda>x. and_then (f x) g)"
  by (auto simp: and_then_def fun_eq_iff split: prod.splits sum.splits)

lemma is_panic_simps [simp]:
  "\<not> is_panic (Inr x)" "\<not> is_panic (Inl (Emu e))" "is_panic (Inl (Panic p))"
  "\<not> is_panic (error e)"
  by (simp_all add: is_panic_def error_def)

section \<open>Words\<close>

text \<open>The literal masks of the source as truncations.\<close>

lemma mask_literals:
  "(w :: 'a::len word) AND 0b1 = take_bit 1 w"
  "w AND 0b11 = take_bit 2 w"
  "w AND 0x7 = take_bit 3 w"
  "w AND 0xf = take_bit 4 w"
  "w AND 0x1f = take_bit 5 w"
  "w AND 0x3f = take_bit 6 w"
  "w AND 0x7f = take_bit 7 w"
  "w AND 0xff = take_bit 8 w"
  "w AND 0x1ff = take_bit 9 w"
  "w AND 0x3ff = take_bit 10 w"
  "w AND 0xfff = take_bit 12 w"
  "w AND 0xffffffff = take_bit 32 w"
  "w AND 0xfffffffffff = take_bit 44 w"
  by (simp_all add: take_bit_eq_mask mask_eq_exp_minus_1)

lemma and_literal_bit:
  "(w :: 'a::len word) AND 1 = 0 \<longleftrightarrow> \<not> bit w 0"
  "w AND 2 = 0 \<longleftrightarrow> \<not> bit w 1"
  "w AND 0x80 = 0 \<longleftrightarrow> \<not> bit w 7"
  using and_exp_eq_0_iff_not_bit [of w 0] and_exp_eq_0_iff_not_bit [of w 1] and_exp_eq_0_iff_not_bit [of w 7]
  by simp_all

lemma and_exp_eq_push_bit_of_bool:
  "n < LENGTH('a) \<Longrightarrow> (w :: 'a::len word) AND 2 ^ n = push_bit n (of_bool (bit w n))"
  by (rule bit_word_eqI) (auto simp: bit_simps)

lemma two_bits: "(w :: 'a::len word) AND 3 = of_bool (bit w 0) OR push_bit 1 (of_bool (bit w 1))"
  by (rule bit_word_eqI) (auto simp: mask_literals bit_simps less_2_cases_iff numeral_2_eq_2 less_Suc_eq)

lemma not_bit_above:
  fixes w :: "'a::len word"
  assumes "w < 2 ^ n" and "n \<le> k"
  shows "\<not> bit w k"
proof (cases "n < LENGTH('a)")
  case True
  then have "take_bit n w = w"
    using assms(1) by (simp add: less_mask_eq take_bit_eq_mask)
  then have "bit w k \<longleftrightarrow> k < n \<and> bit w k"
    by (metis bit_take_bit_iff)
  with assms(2) show ?thesis by auto
next
  case False
  with assms(2) show ?thesis
    using bit_imp_le_length [of w k] by auto
qed

lemma take_bit_below: "(w :: 'a::len word) < 2 ^ n \<Longrightarrow> take_bit n w = w"
  by (rule bit_word_eqI) (metis bit_take_bit_iff not_bit_above not_less)

lemma unat_take_bit_less: "n < LENGTH('a) \<Longrightarrow> unat (take_bit n (w :: 'a::len word)) < 2 ^ n"
  by (simp add: unsigned_take_bit_eq)

lemma take_bit_less: "n < LENGTH('a) \<Longrightarrow> take_bit n (w :: 'a::len word) < 2 ^ n"
  by (simp add: take_bit_eq_mask and_mask_less')

lemma less_expI:
  fixes w :: "'a::len word"
  assumes "n < LENGTH('a)" "\<And>k. n \<le> k \<Longrightarrow> \<not> bit w k"
  shows "w < 2 ^ n"
proof -
  have "take_bit n w = w" using assms(2) by (intro bit_word_eqI) (metis bit_take_bit_iff not_le)
  then show ?thesis using take_bit_less [OF assms(1), of w] by simp
qed

text \<open>The two shifts by which the source sign-extends are the truncation with sign.\<close>

lemma sign_extend_shifts:
  fixes v :: "'a::len word"
  assumes "0 < n" "n \<le> LENGTH('a)"
  shows "signed_drop_bit (LENGTH('a) - n) (push_bit (LENGTH('a) - n) v) = signed_take_bit (n - 1) v"
proof (rule bit_word_eqI)
  fix k assume k: "k < LENGTH('a)"
  show "bit (signed_drop_bit (LENGTH('a) - n) (push_bit (LENGTH('a) - n) v)) k
      = bit (signed_take_bit (n - 1) v) k"
  proof (cases "k < n - 1")
    case False
    then have "k = n - 1 \<or> n \<le> k" by linarith
    with assms k show ?thesis by (auto simp: bit_simps)
  qed (use assms k in \<open>auto simp: bit_simps\<close>)
qed

text \<open>Ranges of sign-extended values.\<close>

lemma signed_take_bit_range:
  assumes "- (2 ^ n) \<le> sint w" "sint w < 2 ^ n"
  shows "signed_take_bit n w = (w::'a::len word)"
proof -
  have "signed_take_bit n (sint w) = sint w"
    using assms by (simp add: signed_take_bit_int_eq_self_iff)
  then have "word_of_int (signed_take_bit n (sint w)) = w" by simp
  then show ?thesis
    by transfer (simp add: take_bit_signed_take_bit signed_take_bit_take_bit min_def split: if_splits)
qed

lemma sint_signed_take_bit:
  assumes "n < LENGTH('a)"
  shows "sint (signed_take_bit n w :: 'a::len word) = signed_take_bit n (uint w)"
proof (rule bit_eqI)
  fix k
  show "bit (sint (signed_take_bit n w)) k = bit (signed_take_bit n (uint w)) k"
    using assms by (cases "k < LENGTH('a)") (auto simp: bit_simps min_def not_less)
qed

lemma sint_signed_take_bit_bounds:
  assumes "n < LENGTH('a)"
  shows "- (2 ^ n) \<le> sint (signed_take_bit n w :: 'a::len word)"
    "sint (signed_take_bit n w :: 'a::len word) < 2 ^ n"
  using assms by (simp_all add: sint_signed_take_bit)

lemma sint_scast_up: "LENGTH('a::len) \<le> LENGTH('b::len) \<Longrightarrow> sint (scast (w::'a word) :: 'b word) = sint w"
  by (rule bit_eqI) (auto simp: bit_simps min_def not_less)

section \<open>Bytes\<close>

lemma length_to_le_bytes [simp]: "length (to_le_bytes n v) = n"
  by (simp add: to_le_bytes_def)

lemma nth_to_le_bytes: "i < n \<Longrightarrow> to_le_bytes n v ! i = ucast (drop_bit (8 * i) v)"
  by (simp add: to_le_bytes_def)

lemma to_le_bytes_Suc: "to_le_bytes (Suc n) v = ucast v # to_le_bytes n (drop_bit 8 v)"
  by (rule nth_equalityI) (auto simp: nth_to_le_bytes nth_Cons' drop_bit_drop_bit algebra_simps
      simp flip: Suc_diff_1 split: nat.splits)

lemma to_le_bytes_0 [simp]: "to_le_bytes 0 v = []"
  by (simp add: to_le_bytes_def)

lemma to_le_bytes_numeral [simp]:
  "to_le_bytes (numeral k) v = ucast v # to_le_bytes (pred_numeral k) (drop_bit 8 v)"
  "to_le_bytes (Suc 0) v = [ucast v]"
  by (simp_all add: numeral_eq_Suc to_le_bytes_Suc)

lemma from_to_le_bytes [simp]: "from_le_bytes (to_le_bytes n v) = take_bit (8 * n) v"
proof (induction n arbitrary: v)
  case 0
  show ?case by (simp add: to_le_bytes_def)
next
  case (Suc n)
  show ?case
    by (rule bit_word_eqI) (auto simp: to_le_bytes_Suc Suc bit_simps)
qed

lemma bit_from_le_bytes:
  "k < 64 \<Longrightarrow> bit (from_le_bytes bs) k \<longleftrightarrow> k div 8 < length bs \<and> bit (bs ! (k div 8)) (k mod 8)"
proof (induction bs arbitrary: k)
  case (Cons b bs)
  show ?case
  proof (cases "k < 8")
    case True
    then show ?thesis using Cons by (auto simp: bit_simps)
  next
    case False
    then have "k div 8 = Suc ((k - 8) div 8)" "k mod 8 = (k - 8) mod 8"
      by (simp_all add: le_div_geq le_mod_geq)
    then show ?thesis using Cons False
      by (auto simp: bit_simps dest: bit_imp_le_length)
  qed
qed simp

lemma to_from_le_bytes: "length bs \<le> 8 \<Longrightarrow> to_le_bytes (length bs) (from_le_bytes bs) = bs"
  by (intro nth_equalityI bit_word_eqI)
    (auto simp: nth_to_le_bytes bit_simps bit_from_le_bytes)

section \<open>What an operation keeps\<close>

text \<open>
  \<open>keeps P E m\<close>: from a state satisfying \<open>P\<close> the operation \<open>m\<close> ends in one, whether it returns
  or faults, and a fault it ends with satisfies \<open>E\<close>. \<open>pure_op m\<close>: the operation never
  changes the state.
\<close>

definition keeps :: "('s \<Rightarrow> bool) \<Rightarrow> (fault \<Rightarrow> bool) \<Rightarrow> ('s, 'a) op \<Rightarrow> bool" where
  "keeps P E m \<longleftrightarrow> (\<forall>s. P s \<longrightarrow> P (snd (m s)) \<and> (\<forall>e. fst (m s) = Inl e \<longrightarrow> E e))"

definition pure_op :: "('s, 'a) op \<Rightarrow> bool" where
  "pure_op m \<longleftrightarrow> (\<forall>s. snd (m s) = s)"

named_theorems keeps_intros "closure of the keeps judgement under the combinators"

lemma keepsI:
  assumes "\<And>s. P s \<Longrightarrow> P (snd (m s))" and "\<And>s e. P s \<Longrightarrow> fst (m s) = Inl e \<Longrightarrow> E e"
  shows "keeps P E m"
  using assms by (auto simp: keeps_def)

lemma keeps_state: "keeps P E m \<Longrightarrow> P s \<Longrightarrow> m s = (r, t) \<Longrightarrow> P t"
  by (auto simp: keeps_def dest: spec [of _ s])

lemma keeps_fault: "keeps P E m \<Longrightarrow> P s \<Longrightarrow> m s = (Inl e, t) \<Longrightarrow> E e"
  by (auto simp: keeps_def dest: spec [of _ s])

lemma keeps_ok [keeps_intros]: "keeps P E (ok x)"
  by (simp add: keeps_def ok_def)

lemma keeps_fail [keeps_intros]: "E e \<Longrightarrow> keeps P E (fail e)"
  by (simp add: keeps_def fail_def)

lemma keeps_gets [keeps_intros]: "keeps P E (gets f)"
  by (simp add: keeps_def gets_def)

lemma keeps_lift_res [keeps_intros]: "(\<And>e. r = Inl e \<Longrightarrow> E e) \<Longrightarrow> keeps P E (lift_res r)"
  by (simp add: keeps_def lift_res_def)

lemma keeps_and_then [keeps_intros]:
  "keeps P E m \<Longrightarrow> (\<And>x. keeps P E (f x)) \<Longrightarrow> keeps P E (and_then m f)"
  by (fastforce simp: keeps_def and_then_def split: prod.splits sum.splits)

lemma keeps_if [keeps_intros]:
  "(b \<Longrightarrow> keeps P E m) \<Longrightarrow> (\<not> b \<Longrightarrow> keeps P E n) \<Longrightarrow> keeps P E (if b then m else n)"
  by simp

lemma keeps_case_option [keeps_intros]:
  "(x = None \<Longrightarrow> keeps P E m) \<Longrightarrow> (\<And>y. x = Some y \<Longrightarrow> keeps P E (f y))
     \<Longrightarrow> keeps P E (case x of None \<Rightarrow> m | Some y \<Rightarrow> f y)"
  by (cases x) simp_all

lemma keeps_case_prod [keeps_intros]:
  "(\<And>a b. x = (a, b) \<Longrightarrow> keeps P E (f a b)) \<Longrightarrow> keeps P E (case x of (a, b) \<Rightarrow> f a b)"
  by (cases x) simp

lemma keeps_Let [keeps_intros]: "keeps P E (f x) \<Longrightarrow> keeps P E (let y = x in f y)"
  by simp

lemma keeps_on_snd:
  assumes "keeps Q E m"
  shows "keeps (\<lambda>s. P (fst s) \<and> Q (snd s)) E (on_snd m)"
  using assms by (fastforce simp: keeps_def on_snd_def split: prod.splits)

lemma pure_opD: "pure_op m \<Longrightarrow> m s = (r, t) \<Longrightarrow> t = s"
  by (auto simp: pure_op_def dest: spec [of _ s])

lemma pure_op_state: "pure_op m \<Longrightarrow> snd (m s) = s"
  by (simp add: pure_op_def)

lemma keeps_pure: "pure_op m \<Longrightarrow> (\<And>s e. P s \<Longrightarrow> fst (m s) = Inl e \<Longrightarrow> E e) \<Longrightarrow> keeps P E m"
  by (simp add: keeps_def pure_op_def)

lemma and_then_Inl: "m s = (Inl e, t) \<Longrightarrow> and_then m f s = (Inl e, t)"
  by (simp add: and_then_def)

lemma and_then_Inr: "m s = (Inr x, t) \<Longrightarrow> and_then m f s = f x t"
  by (simp add: and_then_def)

lemma and_then_cong:
  "m s = m' s \<Longrightarrow> (\<And>x t. m' s = (Inr x, t) \<Longrightarrow> f x t = f' x t) \<Longrightarrow> and_then m f s = and_then m' f' s"
  by (auto simp: and_then_def split: prod.splits sum.splits)

section \<open>Operations that agree\<close>

text \<open>\<open>agrees P m m'\<close>: on states satisfying \<open>P\<close> the two operations do the same, and stay in \<open>P\<close>.\<close>

definition agrees :: "('s \<Rightarrow> bool) \<Rightarrow> ('s, 'a) op \<Rightarrow> ('s, 'a) op \<Rightarrow> bool" where
  "agrees P m m' \<longleftrightarrow> (\<forall>s. P s \<longrightarrow> m s = m' s \<and> P (snd (m s)))"

named_theorems agrees_intros "closure of agreement under the combinators"

lemma agreesD: "agrees P m m' \<Longrightarrow> P s \<Longrightarrow> m s = m' s"
  by (simp add: agrees_def)

lemma agreesI: "(\<And>s. P s \<Longrightarrow> m s = m' s \<and> P (snd (m' s))) \<Longrightarrow> agrees P m m'"
  by (auto simp: agrees_def)

lemma agrees_both: "agrees P m m' \<Longrightarrow> P s \<Longrightarrow> m s = m' s \<and> P (snd (m' s))"
  by (auto simp: agrees_def)

lemma agrees_refl: "keeps P (\<lambda>_. True) m \<Longrightarrow> agrees P m m"
  by (simp add: agrees_def keeps_def)

lemma agrees_ok [agrees_intros]: "agrees P (ok x) (ok x)"
  by (simp add: agrees_def ok_def)

lemma agrees_fail [agrees_intros]: "agrees P (fail e) (fail e)"
  by (simp add: agrees_def fail_def)

lemma agrees_gets [agrees_intros]: "agrees P (gets f) (gets f)"
  by (simp add: agrees_def gets_def)

lemma agrees_and_then [agrees_intros]:
  "agrees P m m' \<Longrightarrow> (\<And>x. agrees P (f x) (f' x)) \<Longrightarrow> agrees P (and_then m f) (and_then m' f')"
  by (fastforce simp: agrees_def and_then_def split: prod.splits sum.splits)

lemma agrees_if [agrees_intros]:
  "(b \<Longrightarrow> agrees P m m') \<Longrightarrow> (\<not> b \<Longrightarrow> agrees P n n')
     \<Longrightarrow> agrees P (if b then m else n) (if b then m' else n')"
  by simp

lemma agrees_case_prod [agrees_intros]:
  "(\<And>a b. x = (a, b) \<Longrightarrow> agrees P (f a b) (f' a b))
     \<Longrightarrow> agrees P (case x of (a, b) \<Rightarrow> f a b) (case x of (a, b) \<Rightarrow> f' a b)"
  by (cases x) simp

lemma agrees_Let [agrees_intros]: "agrees P (f x) (f' x) \<Longrightarrow> agrees P (let y = x in f y) (let y = x in f' y)"
  by simp

lemma agrees_on_snd [agrees_intros]:
  "agrees P m m' \<Longrightarrow> agrees (\<lambda>s. P (snd s)) (on_snd m) (on_snd m')"
  by (auto simp: agrees_def on_snd_def split: prod.splits)

end
