(* ===== verification/Register.thy ===== *)
theory Register
  imports Prelude
begin

text \<open>
  The register file of \<^verbatim>\<open>register.rs\<close>: 32 registers of 64 bits, with register 0 hard-wired to
  zero by a guarded write. The array \<open>[u64; 32]\<close> is a function on indices with the bounds check
  of the indexing expression written out.
\<close>

record registers =
  reg_array :: "nat \<Rightarrow> u64"

definition registers_new :: registers where
  "registers_new = \<lparr>reg_array = (\<lambda>_. 0)\<rparr>"

definition reg_read :: "registers \<Rightarrow> nat \<Rightarrow> u64 res" where
  "reg_read r index = (if index < 32 then Inr (reg_array r index) else Inl (Panic Index_out_of_bounds))"

definition reg_write :: "registers \<Rightarrow> nat \<Rightarrow> u64 \<Rightarrow> registers res" where
  "reg_write r index v =
     (if index \<noteq> 0 then
        (if index < 32 then Inr (r\<lparr>reg_array := (reg_array r)(index := v)\<rparr>)
         else Inl (Panic Index_out_of_bounds))
      else Inr r)"

text \<open>The invariant of the register file: x0 reads as zero.\<close>

definition x0_zero :: "registers \<Rightarrow> bool" where
  "x0_zero r \<longleftrightarrow> reg_array r 0 = 0"

lemma x0_zero_new [simp]: "x0_zero registers_new"
  by (simp add: x0_zero_def registers_new_def)

lemma reg_write_x0_zero: "reg_write r i v = Inr r' \<Longrightarrow> x0_zero r \<Longrightarrow> x0_zero r'"
  by (auto simp: reg_write_def x0_zero_def split: if_splits)

lemma reg_read_in_range [simp]: "i < 32 \<Longrightarrow> reg_read r i = Inr (reg_array r i)"
  by (simp add: reg_read_def)

lemma reg_write_in_range:
  "i < 32 \<Longrightarrow> reg_write r i v =
     Inr (if i = 0 then r else r\<lparr>reg_array := (reg_array r)(i := v)\<rparr>)"
  by (simp add: reg_write_def)

end
