(* ===== verification/Csr.thy ===== *)
theory Csr
  imports Prelude
begin

text \<open>
  The CSR file of \<^verbatim>\<open>csr.rs\<close>: privilege levels, CSR addresses and the flat array of 4096
  64-bit entries. The array is a function on 12-bit indices, so the masked index of the source
  is exactly the whole index range.
\<close>

abbreviation (input) PRIV_U :: u8 where "PRIV_U \<equiv> 0"
abbreviation (input) PRIV_S :: u8 where "PRIV_S \<equiv> 1"
abbreviation (input) PRIV_M :: u8 where "PRIV_M \<equiv> 3"

abbreviation (input) SSTATUS :: u32 where "SSTATUS \<equiv> 0x100"
abbreviation (input) SIE :: u32 where "SIE \<equiv> 0x104"
abbreviation (input) STVEC :: u32 where "STVEC \<equiv> 0x105"
abbreviation (input) SSCRATCH :: u32 where "SSCRATCH \<equiv> 0x140"
abbreviation (input) SEPC :: u32 where "SEPC \<equiv> 0x141"
abbreviation (input) SCAUSE :: u32 where "SCAUSE \<equiv> 0x142"
abbreviation (input) STVAL :: u32 where "STVAL \<equiv> 0x143"
abbreviation (input) SIP :: u32 where "SIP \<equiv> 0x144"
abbreviation (input) SATP :: u32 where "SATP \<equiv> 0x180"
abbreviation (input) MSTATUS :: u32 where "MSTATUS \<equiv> 0x300"
abbreviation (input) MEDELEG :: u32 where "MEDELEG \<equiv> 0x302"
abbreviation (input) MIDELEG :: u32 where "MIDELEG \<equiv> 0x303"
abbreviation (input) MIE :: u32 where "MIE \<equiv> 0x304"
abbreviation (input) MTVEC :: u32 where "MTVEC \<equiv> 0x305"
abbreviation (input) MSCRATCH :: u32 where "MSCRATCH \<equiv> 0x340"
abbreviation (input) MEPC :: u32 where "MEPC \<equiv> 0x341"
abbreviation (input) MCAUSE :: u32 where "MCAUSE \<equiv> 0x342"
abbreviation (input) MTVAL :: u32 where "MTVAL \<equiv> 0x343"
abbreviation (input) MIP :: u32 where "MIP \<equiv> 0x344"
abbreviation (input) MHARTID :: u32 where "MHARTID \<equiv> 0xf14"

type_synonym csrs = "12 word \<Rightarrow> u64"

definition csrs_new :: csrs where
  "csrs_new = (\<lambda>_. 0)"

definition csr_get :: "csrs \<Rightarrow> u32 \<Rightarrow> u64" where
  "csr_get c addr = c (ucast (addr AND 0xfff))"

definition csr_insert :: "csrs \<Rightarrow> u32 \<Rightarrow> u64 \<Rightarrow> csrs" where
  "csr_insert c addr v = c(ucast (addr AND 0xfff) := v)"

definition csr_index :: "csrs \<Rightarrow> u32 \<Rightarrow> u64" where
  "csr_index c addr = c (ucast (addr AND 0xfff))"

end
