(* ===== verification/Interfaces.thy ===== *)
theory Interfaces
  imports Prelude
begin

text \<open>
  The contracts between components, as locales. \<open>mmio_device\<close> is what the bus relies on for the
  size of what it maps; \<open>byte_memory\<close> is what a client of a little-endian memory relies on;
  \<open>page_cache\<close> is what address translation relies on for its translation cache. Each is
  interpreted on the model's own operations in the theory that defines them.
\<close>

section \<open>A mapped device\<close>

text \<open>The trait \<open>Device\<close> of \<^verbatim>\<open>bus.rs\<close>: the length a range is reserved with stays the length.\<close>

locale mmio_device =
  fixes len :: "'d \<Rightarrow> u64"
    and dev_read :: "u64 \<Rightarrow> u8 \<Rightarrow> ('d, u64) op"
    and dev_write :: "u64 \<Rightarrow> u8 \<Rightarrow> u64 \<Rightarrow> ('d, unit) op"
  assumes read_len: "len (snd (dev_read a n d)) = len d"
    and write_len: "len (snd (dev_write a n v d)) = len d"
begin

lemma read_keeps_len: "dev_read a n d = (r, d') \<Longrightarrow> len d' = len d"
  using read_len [of a n d] by simp

lemma write_keeps_len: "dev_write a n v d = (r, d') \<Longrightarrow> len d' = len d"
  using write_len [of a n v d] by simp

end

section \<open>A byte-addressed memory\<close>

text \<open>\<open>valid m a n\<close>: the \<open>n\<close> bytes from address \<open>a\<close> can be accessed.\<close>

locale byte_memory =
  fixes valid :: "'m \<Rightarrow> u64 \<Rightarrow> u8 \<Rightarrow> bool"
    and mem_read :: "u64 \<Rightarrow> u8 \<Rightarrow> ('m, u64) op"
    and mem_write :: "u64 \<Rightarrow> u8 \<Rightarrow> u64 \<Rightarrow> ('m, unit) op"
  assumes read_returns: "valid m a n \<Longrightarrow> \<exists>v. mem_read a n m = (Inr v, m)"
    and write_returns: "valid m a n \<Longrightarrow> fst (mem_write a n v m) = Inr ()"
    and write_valid: "valid m a n \<Longrightarrow> valid (snd (mem_write a n v m)) b k = valid m b k"
    and read_same: "valid m a n
      \<Longrightarrow> fst (mem_read a n (snd (mem_write a n v m))) = Inr (take_bit (8 * unat n) v)"
    and read_other: "valid m a n \<Longrightarrow> valid m b k
      \<Longrightarrow> unat a + unat n \<le> unat b \<or> unat b + unat k \<le> unat a
      \<Longrightarrow> fst (mem_read b k (snd (mem_write a n v m))) = fst (mem_read b k m)"
begin

lemma write_then_read:
  assumes "valid m a n"
  shows "and_then (mem_write a n v) (\<lambda>_. mem_read a n) m
    = (Inr (take_bit (8 * unat n) v), snd (mem_write a n v m))"
proof -
  obtain m' where w: "mem_write a n v m = (Inr (), m')"
    using write_returns [OF assms] by (metis prod.collapse)
  then have "valid m' a n" using write_valid [OF assms, of v a n] assms by simp
  then obtain x where "mem_read a n m' = (Inr x, m')" using read_returns by blast
  with w read_same [OF assms, of v] show ?thesis by (simp add: and_then_def)
qed

text \<open>The second of two stores to disjoint places does not disturb the first.\<close>

lemma write_write_read:
  assumes "valid m a n" "valid m b k" "unat a + unat n \<le> unat b \<or> unat b + unat k \<le> unat a"
  shows "fst (mem_read a n (snd (mem_write b k w (snd (mem_write a n v m)))))
    = Inr (take_bit (8 * unat n) v)"
proof -
  let ?m = "snd (mem_write a n v m)"
  have "valid ?m b k" "valid ?m a n" using assms write_valid by simp_all
  then show ?thesis using read_other [of ?m b k a n w] read_same [OF assms(1)] assms(3) by auto
qed

text \<open>A fault-free write is the pair of the unit result and its final state.\<close>

lemma write_eq: "valid m a n \<Longrightarrow> mem_write a n v m = (Inr (), snd (mem_write a n v m))"
  using write_returns by (metis prod.collapse)

end

section \<open>A translation cache\<close>

text \<open>
  \<open>cached\<close> looks a page number up, \<open>fill\<close> adds an entry (and may evict others), \<open>drop_all\<close>
  empties the cache. A cache is coherent with a relation \<open>maps\<close> between pages and their
  entries when every entry it holds is in the relation.
\<close>

locale page_cache =
  fixes cached :: "'c \<Rightarrow> u64 \<Rightarrow> (u64 \<times> u64) option"
    and fill :: "u64 \<Rightarrow> u64 \<Rightarrow> u64 \<Rightarrow> 'c \<Rightarrow> 'c"
    and drop_all :: "'c \<Rightarrow> 'c"
  assumes cached_drop_all: "cached (drop_all c) v = None"
    and cached_fill: "cached (fill v p q c) v = Some (p, q)"
    and cached_other: "w \<noteq> v \<Longrightarrow> cached (fill v p q c) w = cached c w \<or> cached (fill v p q c) w = None"
begin

definition coherent :: "(u64 \<Rightarrow> u64 \<Rightarrow> u64 \<Rightarrow> bool) \<Rightarrow> 'c \<Rightarrow> bool" where
  "coherent maps c \<longleftrightarrow> (\<forall>v p q. cached c v = Some (p, q) \<longrightarrow> maps v p q)"

lemma coherent_hit: "coherent maps c \<Longrightarrow> cached c v = Some (p, q) \<Longrightarrow> maps v p q"
  by (simp add: coherent_def)

lemma coherent_drop_all: "coherent maps (drop_all c)"
  by (simp add: coherent_def cached_drop_all)

lemma coherent_fill:
  assumes "coherent maps c" "maps v p q"
  shows "coherent maps (fill v p q c)"
  unfolding coherent_def
proof (intro allI impI)
  fix w r s assume hit: "cached (fill v p q c) w = Some (r, s)"
  show "maps w r s"
  proof (cases "w = v")
    case False
    with hit have "cached c w = Some (r, s)" using cached_other [of w v p q c] by simp
    with assms(1) show ?thesis by (rule coherent_hit)
  qed (use hit assms(2) cached_fill in simp)
qed

end

end
