(* ===== verification/Ram.thy ===== *)
theory Ram
  imports Interfaces
begin

text \<open>
  \<^verbatim>\<open>ram.rs\<close>: a flat little-endian byte array. Every slice expression carries the bounds check
  whose failure is a panic in the source.
\<close>

record ram =
  ram_data :: "u8 list"

definition ram_new :: "u64 \<Rightarrow> ram" where
  "ram_new sz = \<lparr>ram_data = replicate (unat sz) 0\<rparr>"

definition ram_with_content :: "u64 \<Rightarrow> u8 list \<Rightarrow> ram" where
  "ram_with_content sz content =
     (let len = max (unat sz) (length content)
      in \<lparr>ram_data = content @ replicate (len - length content) 0\<rparr>)"

definition ram_len :: "ram \<Rightarrow> u64" where
  "ram_len r = of_nat (length (ram_data r))"

text \<open>The slice \<open>data[a..a + n]\<close>.\<close>

definition slice :: "u8 list \<Rightarrow> nat \<Rightarrow> nat \<Rightarrow> u8 list res" where
  "slice data a n =
     (if a + n \<le> length data then Inr (take n (drop a data)) else Inl (Panic Slice_out_of_range))"

text \<open>\<open>data[a..a + n].copy_from_slice(bs)\<close> for \<open>bs\<close> of length \<open>n\<close>.\<close>

definition copy_from_slice :: "u8 list \<Rightarrow> nat \<Rightarrow> u8 list \<Rightarrow> u8 list res" where
  "copy_from_slice data a bs =
     (if a + length bs \<le> length data
      then Inr (take a data @ bs @ drop (a + length bs) data)
      else Inl (Panic Slice_out_of_range))"

definition ram_read :: "u64 \<Rightarrow> u8 \<Rightarrow> (ram, u64) op" where
  "ram_read address sz = (\<lambda>r.
     let a = unat address in
     (if sz = 1 then
        (if a < length (ram_data r) then Inr (ucast (ram_data r ! a))
         else Inl (Panic Index_out_of_bounds))
      else if sz = 2 then map_sum id from_le_bytes (slice (ram_data r) a 2)
      else if sz = 4 then map_sum id from_le_bytes (slice (ram_data r) a 4)
      else if sz = 8 then map_sum id from_le_bytes (slice (ram_data r) a 8)
      else error (Invalid_address_size address), r))"

text \<open>The store of \<open>n\<close> bytes, the shape of the three slice arms of \<open>Ram::write\<close>.\<close>

definition ram_store :: "nat \<Rightarrow> nat \<Rightarrow> u64 \<Rightarrow> (ram, unit) op" where
  "ram_store a n v = (\<lambda>r.
     case copy_from_slice (ram_data r) a (to_le_bytes n v) of
       Inl e \<Rightarrow> (Inl e, r)
     | Inr d \<Rightarrow> (Inr (), r\<lparr>ram_data := d\<rparr>))"

definition ram_write :: "u64 \<Rightarrow> u8 \<Rightarrow> u64 \<Rightarrow> (ram, unit) op" where
  "ram_write address sz v = (\<lambda>r.
     let a = unat address in
     if sz = 1 then
        (if a < length (ram_data r) then (Inr (), r\<lparr>ram_data := (ram_data r)[a := ucast v]\<rparr>)
         else (Inl (Panic Index_out_of_bounds), r))
     else if sz = 2 then ram_store a 2 v r
     else if sz = 4 then ram_store a 4 v r
     else if sz = 8 then ram_store a 8 v r
     else (error (Invalid_address_size address), r))"

section \<open>Accesses in range\<close>

definition ram_valid :: "ram \<Rightarrow> u64 \<Rightarrow> u8 \<Rightarrow> bool" where
  "ram_valid r a n \<longleftrightarrow> n \<in> {1, 2, 4, 8} \<and> unat a + unat n \<le> length (ram_data r)"

text \<open>The store of a byte string, the common effect of the four arms of \<open>Ram::write\<close>.\<close>

lemma list_update_splice: "a < length d \<Longrightarrow> d[a := x] = take a d @ [x] @ drop (a + 1) d"
  by (simp add: upd_conv_take_nth_drop)

lemma ram_read_valid:
  "ram_valid r a n \<Longrightarrow>
     ram_read a n r = (Inr (from_le_bytes (take (unat n) (drop (unat a) (ram_data r)))), r)"
proof (cases "n = 1")
  case True
  assume "ram_valid r a n"
  with True have "unat a < length (ram_data r)" by (simp add: ram_valid_def)
  moreover from this have "take 1 (drop (unat a) (ram_data r)) = [ram_data r ! unat a]"
    by (simp add: take_Suc hd_drop_conv_nth flip: Cons_nth_drop_Suc)
  ultimately show ?thesis using True by (simp add: ram_read_def Let_def)
qed (auto simp: ram_valid_def ram_read_def slice_def Let_def)

lemma ram_write_valid:
  "ram_valid r a n \<Longrightarrow>
     ram_write a n v r =
       (Inr (), r\<lparr>ram_data := take (unat a) (ram_data r) @ to_le_bytes (unat n) v
                             @ drop (unat a + unat n) (ram_data r)\<rparr>)"
  by (auto simp: ram_valid_def ram_write_def ram_store_def copy_from_slice_def Let_def
      list_update_splice to_le_bytes_def)

lemma ram_valid_write:
  "ram_valid r a n \<Longrightarrow> ram_valid (snd (ram_write a n v r)) b k = ram_valid r b k"
  by (auto simp: ram_write_valid) (auto simp: ram_valid_def)

lemma take_drop_splice_disjoint:
  assumes "a + length bs \<le> length d" "b + k \<le> length d" "a + length bs \<le> b \<or> b + k \<le> a"
  shows "take k (drop b (take a d @ bs @ drop (a + length bs) d)) = take k (drop b d)"
  using assms by (intro nth_equalityI) (auto simp: nth_append)

interpretation ram_mem: byte_memory ram_valid ram_read ram_write
proof
  fix r a n v b k
  assume valid: "ram_valid r a n"
  show "\<exists>v. ram_read a n r = (Inr v, r)" using ram_read_valid [OF valid] by blast
  show "fst (ram_write a n v r) = Inr ()" using ram_write_valid [OF valid] by simp
  show kept: "ram_valid (snd (ram_write a n v r)) b k = ram_valid r b k" for b k
    by (rule ram_valid_write [OF valid])
  from valid have len: "unat a + unat n \<le> length (ram_data r)" by (simp add: ram_valid_def)
  show "fst (ram_read a n (snd (ram_write a n v r))) = Inr (take_bit (8 * unat n) v)"
    using ram_read_valid [of "snd (ram_write a n v r)" a n] kept [of a n] valid len
    by (simp add: ram_write_valid min_absorb2)
  assume other: "ram_valid r b k" and disj: "unat a + unat n \<le> unat b \<or> unat b + unat k \<le> unat a"
  from other have "unat b + unat k \<le> length (ram_data r)" by (simp add: ram_valid_def)
  with len disj have "take (unat k) (drop (unat b) (take (unat a) (ram_data r)
      @ to_le_bytes (unat n) v @ drop (unat a + unat n) (ram_data r)))
      = take (unat k) (drop (unat b) (ram_data r))"
    using take_drop_splice_disjoint [of "unat a" "to_le_bytes (unat n) v" "ram_data r" "unat b" "unat k"]
    by simp
  then show "fst (ram_read b k (snd (ram_write a n v r))) = fst (ram_read b k r)"
    using ram_read_valid [of "snd (ram_write a n v r)" b k] ram_read_valid [OF other] kept [of b k] other
    by (simp add: ram_write_valid [OF valid])
qed

interpretation ram_dev: mmio_device ram_len ram_read ram_write
  by unfold_locales
    (auto simp: ram_len_def ram_read_def ram_write_def ram_store_def copy_from_slice_def Let_def)

lemma ram_read_pure: "pure_op (ram_read a n)"
  by (simp add: pure_op_def ram_read_def Let_def)

lemma ram_length_write [simp]: "length (ram_data (snd (ram_write a n v r))) = length (ram_data r)"
  by (auto simp: ram_write_def ram_store_def copy_from_slice_def Let_def)

text \<open>The only faults: an unsupported size errs, an access beyond the data panics.\<close>

lemma ram_fault_iff:
  "(\<exists>v. ram_read a n r = (Inr v, r)) \<longleftrightarrow> ram_valid r a n"
proof
  assume "\<exists>v. ram_read a n r = (Inr v, r)"
  then show "ram_valid r a n"
    by (auto simp: ram_valid_def ram_read_def slice_def error_def Let_def split: if_splits)
qed (auto simp: ram_read_valid)

text \<open>
  C25: little-endian memory. A store of \<open>n \<in> {1, 2, 4, 8}\<close> bytes in range succeeds; reading the
  same place back gives the stored value truncated to \<open>n\<close> bytes; reading any disjoint place in
  range gives what it gave before; the length of the memory stays.
\<close>

theorem ram_store_load:
  assumes "ram_valid r a n"
  shows "and_then (ram_write a n v) (\<lambda>_. ram_read a n) r
           = (Inr (take_bit (8 * unat n) v), snd (ram_write a n v r))
    \<and> (\<forall>b k. ram_valid r b k \<longrightarrow> unat a + unat n \<le> unat b \<or> unat b + unat k \<le> unat a
         \<longrightarrow> fst (ram_read b k (snd (ram_write a n v r))) = fst (ram_read b k r))
    \<and> ram_len (snd (ram_write a n v r)) = ram_len r"
  by (intro conjI allI impI ram_mem.write_then_read ram_mem.read_other ram_dev.write_len assms)

theorem ram_store_load_witness:
  "ram_valid \<lparr>ram_data = [0, 0, 0, 0, 0, 0, 0, 0]\<rparr> 2 4
   \<and> and_then (ram_write 2 4 0x1122334455) (\<lambda>_. ram_read 2 4)
         \<lparr>ram_data = [0, 0, 0, 0, 0, 0, 0, 0]\<rparr>
       = (Inr 0x22334455, \<lparr>ram_data = [0, 0, 0x55, 0x44, 0x33, 0x22, 0, 0]\<rparr>)"
proof -
  have v: "ram_valid \<lparr>ram_data = [0, 0, 0, 0, 0, 0, 0, 0]\<rparr> 2 4"
    by (simp add: ram_valid_def)
  have "snd (ram_write 2 4 0x1122334455 \<lparr>ram_data = [0, 0, 0, 0, 0, 0, 0, 0]\<rparr>)
      = \<lparr>ram_data = [0, 0, 0x55, 0x44, 0x33, 0x22, 0, 0]\<rparr>"
    by (simp add: ram_write_valid [OF v])
  with v ram_store_load [OF v, where v = "0x1122334455"] show ?thesis by simp
qed

end
