(* ===== verification/Clint.thy ===== *)
theory Clint
  imports Interfaces
begin

text \<open>
  \<^verbatim>\<open>clint.rs\<close>: the timer device, a free-running 64-bit counter and one compare register per
  hart.
\<close>

abbreviation (input) MTIME_OFFSET :: u64 where "MTIME_OFFSET \<equiv> 0xbff8"
abbreviation (input) MTIMECMP_OFFSET :: u64 where "MTIMECMP_OFFSET \<equiv> 0x4000"

record clint =
  clint_size :: u64
  mtime :: u64
  mtimecmp :: "u64 list"

definition clint_new :: "u64 \<Rightarrow> nat \<Rightarrow> clint" where
  "clint_new sz nhart = \<lparr>clint_size = sz, mtime = 0, mtimecmp = replicate nhart (-1)\<rparr>"

definition tick :: "clint \<Rightarrow> clint" where
  "tick c = c\<lparr>mtime := mtime c + 1\<rparr>"

definition pending :: "clint \<Rightarrow> nat \<Rightarrow> bool res" where
  "pending c hart =
     (if hart < length (mtimecmp c) then Inr (mtimecmp c ! hart \<le> mtime c)
      else Inl (Panic Index_out_of_bounds))"

definition clint_len :: "clint \<Rightarrow> u64" where
  "clint_len c = clint_size c"

definition mtimecmp_end :: "clint \<Rightarrow> u64" where
  "mtimecmp_end c = MTIMECMP_OFFSET + 8 * of_nat (length (mtimecmp c))"

definition clint_read :: "u64 \<Rightarrow> u8 \<Rightarrow> (clint, u64) op" where
  "clint_read address sz = (\<lambda>c.
     (if sz \<noteq> 8 then error (Clint_read_size sz)
      else if address = MTIME_OFFSET then Inr (mtime c)
      else if MTIMECMP_OFFSET \<le> address \<and> address < mtimecmp_end c then
        (let i = unat ((address - MTIMECMP_OFFSET) div 8) in
         if i < length (mtimecmp c) then Inr (mtimecmp c ! i) else Inl (Panic Index_out_of_bounds))
      else Inr 0, c))"

definition clint_write :: "u64 \<Rightarrow> u8 \<Rightarrow> u64 \<Rightarrow> (clint, unit) op" where
  "clint_write address sz v = (\<lambda>c.
     if sz \<noteq> 8 then (error (Clint_write_size sz), c)
     else if address = MTIME_OFFSET then (Inr (), c\<lparr>mtime := v\<rparr>)
     else if MTIMECMP_OFFSET \<le> address \<and> address < mtimecmp_end c then
       (let i = unat ((address - MTIMECMP_OFFSET) div 8) in
        if i < length (mtimecmp c) then (Inr (), c\<lparr>mtimecmp := (mtimecmp c)[i := v]\<rparr>)
        else (Inl (Panic Index_out_of_bounds), c))
     else (Inr (), c))"

section \<open>The timer\<close>

interpretation clint_dev: mmio_device clint_len clint_read clint_write
  by unfold_locales (auto simp: clint_len_def clint_read_def clint_write_def Let_def)

lemma clint_read_pure: "pure_op (clint_read a n)"
  by (simp add: pure_op_def clint_read_def)

lemma ticks: "(tick ^^ k) c = c\<lparr>mtime := mtime c + of_nat k\<rparr>"
  by (induction k) (simp_all add: tick_def ac_simps)

lemma clint_write_harts [simp]:
  "length (mtimecmp (snd (clint_write a n v c))) = length (mtimecmp c)"
  by (auto simp: clint_write_def Let_def)

lemma tick_harts [simp]: "length (mtimecmp (tick c)) = length (mtimecmp c)"
  by (simp add: tick_def)

text \<open>The address of a hart's compare register, for the hart counts whose window stays below
  \<^verbatim>\<open>mtime\<close>.\<close>

lemma mtimecmp_address:
  assumes "h < length (mtimecmp c)" "length (mtimecmp c) \<le> 4095"
  shows "MTIMECMP_OFFSET + 8 * of_nat h \<noteq> MTIME_OFFSET"
    "MTIMECMP_OFFSET \<le> MTIMECMP_OFFSET + 8 * of_nat h"
    "MTIMECMP_OFFSET + 8 * of_nat h < mtimecmp_end c"
    "unat ((8 * of_nat h :: u64) div 8) = h"
proof -
  have u: "unat (8 * of_nat k :: u64) = 8 * k" if "k \<le> 4095" for k
    using that by (simp add: unat_word_ariths unat_of_nat)
  from assms have h: "h \<le> 4094" "h \<le> 4095" by simp_all
  have a: "unat (MTIMECMP_OFFSET + 8 * of_nat h) = 0x4000 + 8 * h"
    using h u [of h] by (simp add: unat_word_ariths)
  show "MTIMECMP_OFFSET + 8 * of_nat h \<noteq> MTIME_OFFSET"
  proof
    assume "MTIMECMP_OFFSET + 8 * of_nat h = MTIME_OFFSET"
    with a have "0x4000 + 8 * h = 0xbff8" by simp
    with h show False by simp
  qed
  show "MTIMECMP_OFFSET \<le> MTIMECMP_OFFSET + 8 * of_nat h" using a by (simp add: word_le_nat_alt)
  have "unat (mtimecmp_end c) = 0x4000 + 8 * length (mtimecmp c)"
    using assms(2) u [of "length (mtimecmp c)"] by (simp add: mtimecmp_end_def unat_word_ariths)
  then show "MTIMECMP_OFFSET + 8 * of_nat h < mtimecmp_end c" using a assms(1) by (simp add: word_less_nat_alt)
  show "unat ((8 * of_nat h :: u64) div 8) = h" using u [OF h(2)] by (simp add: unat_div)
qed

lemma clint_write_mtimecmp:
  assumes "h < length (mtimecmp c)" "length (mtimecmp c) \<le> 4095"
  shows "clint_write (MTIMECMP_OFFSET + 8 * of_nat h) 8 v c
    = (Inr (), c\<lparr>mtimecmp := (mtimecmp c)[h := v]\<rparr>)"
  using mtimecmp_address [OF assms] assms(1)
  by (simp add: clint_write_def Let_def add_diff_cancel_left' flip: not_less)

text \<open>
  C28: the timer interrupt. On a timer with at most 4095 compare registers (as many as its register
  window has room for; the machine has at most 32), programming hart \<open>h\<close>'s compare register with \<open>v\<close> and letting \<open>k\<close> ticks
  pass (without the counter wrapping), the interrupt of \<open>h\<close> is pending exactly when the counter
  has reached \<open>v\<close>; every other hart is pending exactly as it would be without the write.
\<close>

theorem clint_timer:
  assumes "h < length (mtimecmp c)" "length (mtimecmp c) \<le> 4095" "unat (mtime c) + k < 2 ^ 64"
  shows "pending ((tick ^^ k) (snd (clint_write (MTIMECMP_OFFSET + 8 * of_nat h) 8 v c))) h
           = Inr (unat v \<le> unat (mtime c) + k)
    \<and> (\<forall>g. g \<noteq> h \<longrightarrow>
         pending ((tick ^^ k) (snd (clint_write (MTIMECMP_OFFSET + 8 * of_nat h) 8 v c))) g
           = pending ((tick ^^ k) c) g)"
proof -
  have "unat (mtime c + of_nat k) = unat (mtime c) + k"
    using assms(3) by (simp add: unat_word_ariths unat_of_nat)
  then show ?thesis
    using assms(1) by (simp add: clint_write_mtimecmp [OF assms(1,2)] ticks pending_def word_le_nat_alt)
qed

theorem clint_timer_witness:
  "pending ((tick ^^ 5) (snd (clint_write (MTIMECMP_OFFSET + 8 * of_nat 1) 8 7
     \<lparr>clint_size = 0x10000, mtime = 2, mtimecmp = [- 1, - 1]\<rparr>))) 1 = Inr True
   \<and> pending ((tick ^^ 4) (snd (clint_write (MTIMECMP_OFFSET + 8 * of_nat 1) 8 7
     \<lparr>clint_size = 0x10000, mtime = 2, mtimecmp = [- 1, - 1]\<rparr>))) 1 = Inr False"
  using clint_timer [of 1 "\<lparr>clint_size = 0x10000, mtime = 2, mtimecmp = [- 1, - 1]\<rparr>" 5 7]
    clint_timer [of 1 "\<lparr>clint_size = 0x10000, mtime = 2, mtimecmp = [- 1, - 1]\<rparr>" 4 7]
  by simp

end
