(* ===== verification/Uart.thy ===== *)
theory Uart
  imports Interfaces
begin

text \<open>
  \<^verbatim>\<open>uart.rs\<close>: the 16550-style console. The writer behind \<open>output\<close> is modelled by the bytes
  handed to it (the source ignores what the writer returns); the reader behind \<open>input\<close> by the
  sequence of answers its \<open>read\<close> calls give, one per poll, with \<open>Ok(0)\<close> once they run out.
\<close>

abbreviation (input) LSR_TX_IDLE :: u8 where "LSR_TX_IDLE \<equiv> 0x20"
abbreviation (input) IER_RX_ENABLE :: u8 where "IER_RX_ENABLE \<equiv> 0x1"
abbreviation (input) IER_TX_ENABLE :: u8 where "IER_TX_ENABLE \<equiv> 0x2"
abbreviation (input) LCR_NBITS :: u8 where "LCR_NBITS \<equiv> 3"
abbreviation (input) LCR_BAUD_LATCH :: u8 where "LCR_BAUD_LATCH \<equiv> 0x80"

datatype read_answer = Read_ok "u8 list" | Read_err

record uart =
  uart_size :: u64
  divisor_latch_accessible :: bool
  interrupt_enabled_rx :: bool
  interrupt_enabled_tx :: bool
  line_control_nbits :: u8
  dll_value :: u8
  dlm_value :: u8
  rx_queue :: "u8 list"
  uart_output :: "u8 list option"
  uart_input :: "read_answer list option"

definition uart_new :: "u64 \<Rightarrow> u8 list option \<Rightarrow> read_answer list option \<Rightarrow> uart" where
  "uart_new sz out inp =
     \<lparr>uart_size = sz, divisor_latch_accessible = False, interrupt_enabled_rx = False,
      interrupt_enabled_tx = False, line_control_nbits = 0, dll_value = 0, dlm_value = 0,
      rx_queue = [], uart_output = out, uart_input = inp\<rparr>"

definition dlab :: "uart \<Rightarrow> bool" where
  "dlab u = divisor_latch_accessible u"

definition data_available :: "uart \<Rightarrow> bool" where
  "data_available u = (rx_queue u \<noteq> [])"

definition uart_interrupt_status :: "uart \<Rightarrow> u32" where
  "uart_interrupt_status u = of_bool (data_available u \<and> interrupt_enabled_rx u)"

definition inject :: "u8 list \<Rightarrow> uart \<Rightarrow> uart" where
  "inject bs u = u\<lparr>rx_queue := rx_queue u @ bs\<rparr>"

text \<open>One poll: the reader's next answer, at most the 256 bytes of the buffer.\<close>

definition poll_input :: "(uart, unit) op" where
  "poll_input = (\<lambda>u.
     case uart_input u of
       None \<Rightarrow> (Inr (), u)
     | Some [] \<Rightarrow> (Inr (), u)
     | Some (Read_err # rest) \<Rightarrow> (Inr (), u\<lparr>uart_input := Some rest\<rparr>)
     | Some (Read_ok bs # rest) \<Rightarrow>
         (if length bs \<le> 256
          then (Inr (), u\<lparr>uart_input := Some rest, rx_queue := rx_queue u @ bs\<rparr>)
          else (Inl (Panic Slice_out_of_range), u\<lparr>uart_input := Some rest\<rparr>)))"

definition rbr :: "uart \<Rightarrow> u8 \<times> uart" where
  "rbr u = (case rx_queue u of [] \<Rightarrow> (0, u) | b # bs \<Rightarrow> (b, u\<lparr>rx_queue := bs\<rparr>))"

definition ier :: "uart \<Rightarrow> u8" where
  "ier u = (of_bool (interrupt_enabled_rx u) * IER_RX_ENABLE)
           OR (of_bool (interrupt_enabled_tx u) * IER_TX_ENABLE)"

definition lcr :: "uart \<Rightarrow> u8" where
  "lcr u = push_bit 7 (of_bool (divisor_latch_accessible u)) OR line_control_nbits u"

definition lsr :: "uart \<Rightarrow> u8" where
  "lsr u = of_bool (data_available u) OR LSR_TX_IDLE"

definition uart_len :: "uart \<Rightarrow> u64" where
  "uart_len u = uart_size u"

definition uart_read :: "u64 \<Rightarrow> u8 \<Rightarrow> (uart, u64) op" where
  "uart_read address sz = (\<lambda>u.
     if sz \<noteq> 1 then (error (Uart_read_size sz), u)
     else if address = 0 then
       (if dlab u then (Inr (ucast (dll_value u)), u)
        else (case rbr u of (b, u') \<Rightarrow> (Inr (ucast b), u')))
     else if address = 1 then
       (Inr (ucast (if dlab u then dlm_value u else ier u)), u)
     else if address = 2 then (Inr 0, u)
     else if address = 3 then (Inr (ucast (lcr u)), u)
     else if address = 4 then (Inr 0, u)
     else if address = 5 then (Inr (ucast (lsr u)), u)
     else if address = 6 then (Inr 0, u)
     else if address = 7 then (Inr 0, u)
     else (Inr 0, u))"

definition uart_write :: "u64 \<Rightarrow> u8 \<Rightarrow> u64 \<Rightarrow> (uart, unit) op" where
  "uart_write address sz val = (\<lambda>u.
     if sz \<noteq> 1 then (error (Uart_write_size sz), u)
     else let v = (ucast (val AND 0xff) :: u8) in
     if address = 5 \<or> address = 6 then (error Uart_illegal_write, u)
     else if address = 0 then
       (if dlab u then (Inr (), u\<lparr>dll_value := v\<rparr>)
        else (case uart_output u of
                None \<Rightarrow> (Inr (), u)
              | Some out \<Rightarrow> (Inr (), u\<lparr>uart_output := Some (out @ [v])\<rparr>)))
     else if address = 1 then
       (if dlab u then (Inr (), u\<lparr>dlm_value := v\<rparr>)
        else if v AND NOT (IER_RX_ENABLE OR IER_TX_ENABLE) \<noteq> 0 then (error Uart_ier_unhandled, u)
        else (Inr (), u\<lparr>interrupt_enabled_rx := (v AND IER_RX_ENABLE \<noteq> 0),
                        interrupt_enabled_tx := (v AND IER_TX_ENABLE \<noteq> 0)\<rparr>))
     else if address = 2 then (Inr (), u)
     else if address = 3 then
       (Inr (), u\<lparr>divisor_latch_accessible := (v AND LCR_BAUD_LATCH \<noteq> 0),
                  line_control_nbits := v AND LCR_NBITS\<rparr>)
     else (Inr (), u))"

section \<open>The receive queue and the registers\<close>

interpretation uart_dev: mmio_device uart_len uart_read uart_write
  by unfold_locales
    (auto simp: uart_len_def uart_read_def uart_write_def rbr_def Let_def split: list.splits option.splits)

text \<open>\<open>n\<close> reads of the receive buffer register in a row, as a driver drains it.\<close>

fun drain :: "nat \<Rightarrow> (uart, u64 list) op" where
  "drain 0 = ok []"
| "drain (Suc n) = and_then (uart_read 0 1) (\<lambda>b. and_then (drain n) (\<lambda>bs. ok (b # bs)))"

lemma uart_read_rbr:
  "\<not> dlab u \<Longrightarrow> uart_read 0 1 u =
     (Inr (ucast (hd (rx_queue u @ [0]))), u\<lparr>rx_queue := tl (rx_queue u)\<rparr>)"
  by (cases "rx_queue u") (simp_all add: uart_read_def rbr_def)

lemma take_padded: "take n (xs @ x # replicate n x) = take n (xs @ replicate n x)"
  by (simp flip: replicate_Suc)

lemma drain_spec:
  "\<not> dlab u \<Longrightarrow> drain n u =
     (Inr (map ucast (take n (rx_queue u @ replicate n 0))), u\<lparr>rx_queue := drop n (rx_queue u)\<rparr>)"
proof (induction n arbitrary: u)
  case (Suc n)
  have "\<not> dlab (u\<lparr>rx_queue := tl (rx_queue u)\<rparr>)" using Suc.prems by (simp add: dlab_def)
  then show ?case
    by (cases "rx_queue u")
      (simp_all add: and_then_def uart_read_rbr [OF Suc.prems] Suc.IH ok_def drop_Suc
        take_padded del: take_append)
qed (simp add: ok_def)

text \<open>
  C27: receiving. With the divisor latch off, \<open>n\<close> reads of the receive register give the queued
  bytes followed by the injected ones, in order and each once, and zeros when they run out; bytes
  not read stay queued. The line status and the interrupt line follow the queue: data is flagged
  exactly while bytes are left, and the interrupt is raised exactly while they are left and the
  receive interrupt is enabled.
\<close>

theorem uart_receive_fifo:
  assumes "\<not> dlab u"
  shows "drain n (inject bs u) =
      (Inr (map ucast (take n (rx_queue u @ bs @ replicate n 0))),
       u\<lparr>rx_queue := drop n (rx_queue u @ bs)\<rparr>)
    \<and> fst (uart_read 5 1 (snd (drain n (inject bs u))))
        = Inr (0x20 OR of_bool (n < length (rx_queue u @ bs)))
    \<and> uart_interrupt_status (snd (drain n (inject bs u)))
        = of_bool (interrupt_enabled_rx u \<and> n < length (rx_queue u @ bs))"
proof -
  have "\<not> dlab (inject bs u)" using assms by (simp add: dlab_def inject_def)
  from drain_spec [OF this, of n] have d: "drain n (inject bs u) =
      (Inr (map ucast (take n (rx_queue u @ bs @ replicate n 0))),
       u\<lparr>rx_queue := drop n (rx_queue u @ bs)\<rparr>)"
    by (simp add: inject_def)
  show ?thesis
    unfolding d by (auto simp: uart_read_def lsr_def data_available_def uart_interrupt_status_def)
qed

theorem uart_receive_fifo_witness:
  "fst (drain 3 (inject [0x62] ((uart_new 0x100 None None)\<lparr>rx_queue := [0x61]\<rparr>))) = Inr [0x61, 0x62, 0]"
  using uart_receive_fifo [of "(uart_new 0x100 None None)\<lparr>rx_queue := [0x61]\<rparr>" 3 "[0x62]"]
  by (simp add: dlab_def uart_new_def inject_def)

lemma low_byte:
  "bit (ucast (val AND 0xff :: u64) :: u8) n \<longleftrightarrow> bit val n \<and> n < 8"
  by (auto simp: mask_literals bit_simps)

lemma ier_known: "(ucast (val AND 0xff :: u64) :: u8) AND NOT (1 OR 2) = 0 \<longleftrightarrow> val AND 0xfc = 0"
proof -
  have n: "NOT (1 OR 2) = (0xfc :: u8)" by code_simp
  have "(ucast (val AND 0xff) :: u8) AND NOT (1 OR 2) = ucast ((val AND 0xff) AND 0xfc)"
    by (simp only: unsigned_and_eq n) simp
  also have "(val AND 0xff) AND 0xfc = val AND 0xfc" by (simp add: and.assoc)
  finally have e: "(ucast (val AND 0xff) :: u8) AND NOT (1 OR 2) = ucast (val AND 0xfc)" .
  have "ucast (ucast (val AND 0xfc) :: u8) = (val AND 0xfc) AND 0xff"
    by (rule bit_word_eqI) (auto simp: mask_literals bit_simps)
  also have "\<dots> = val AND 0xfc" by (simp add: and.assoc)
  finally have "(ucast (val AND 0xfc) :: u8) = 0 \<longleftrightarrow> val AND 0xfc = 0" by (metis unsigned_0)
  with e show ?thesis by simp
qed


lemma ier_readback:
  assumes "val AND 0xfc = 0"
  shows "ucast (of_bool (bit val 0) * IER_RX_ENABLE OR of_bool (bit val 1) * IER_TX_ENABLE :: u8)
    = val AND 0xff"
proof -
  have "val AND 0xff = (val AND 0xfc) OR (val AND 3)"
    by (simp flip: bit.conj_disj_distrib)
  also have "\<dots> = of_bool (bit val 0) OR push_bit 1 (of_bool (bit val 1))"
    by (simp add: assms two_bits)
  finally show ?thesis by simp
qed

text \<open>
  C30: the programmable registers read back what was written to them: the interrupt enables with
  the latch off (an unknown enable bit is an error and changes nothing), the two divisor bytes
  with it on, and the line control with the bits it keeps.
\<close>

theorem uart_register_roundtrip:
  "(\<not> dlab u \<longrightarrow> val AND 0xfc = 0 \<longrightarrow>
      and_then (uart_write 1 1 val) (\<lambda>_. uart_read 1 1) u
        = (Inr (val AND 0xff), u\<lparr>interrupt_enabled_rx := bit val 0, interrupt_enabled_tx := bit val 1\<rparr>))
   \<and> (\<not> dlab u \<longrightarrow> val AND 0xfc \<noteq> 0 \<longrightarrow> uart_write 1 1 val u = (error Uart_ier_unhandled, u))
   \<and> (dlab u \<longrightarrow> fst (and_then (uart_write 0 1 val) (\<lambda>_. uart_read 0 1) u) = Inr (val AND 0xff)
        \<and> fst (and_then (uart_write 1 1 val) (\<lambda>_. uart_read 1 1) u) = Inr (val AND 0xff))
   \<and> fst (and_then (uart_write 3 1 val) (\<lambda>_. uart_read 3 1) u) = Inr (val AND 0x83)
   \<and> dlab (snd (uart_write 3 1 val u)) = bit val 7"
proof -
  have v: "ucast (ucast (val AND 0xff) :: u8) = val AND 0xff"
    by (rule bit_word_eqI) (auto simp: mask_literals bit_simps)
  have l: "val AND 0x83 = ucast (push_bit 7 (of_bool (bit val 7)) OR (ucast (val AND 0xff) AND LCR_NBITS) :: u8)"
  proof -
    have "val AND 0x83 = (val AND 0x80) OR (val AND 3)" by (simp flip: bit.conj_disj_distrib)
    also have "val AND 0x80 = push_bit 7 (of_bool (bit val 7))"
      using and_exp_eq_push_bit_of_bool [of 7 val] by simp
    finally show ?thesis
      by (simp only: two_bits) (rule bit_word_eqI, auto simp: low_byte bit_simps)
  qed
  show ?thesis
    using ier_known [of val] ier_readback [of val]
    by (auto simp: uart_write_def uart_read_def and_then_def dlab_def ier_def lcr_def v l
        and_literal_bit low_byte)
qed

theorem uart_register_roundtrip_witness:
  "and_then (uart_write 1 1 3) (\<lambda>_. uart_read 1 1) (uart_new 0x100 None None)
     = (Inr 3, (uart_new 0x100 None None)\<lparr>interrupt_enabled_rx := True, interrupt_enabled_tx := True\<rparr>)"
proof -
  have "\<not> dlab (uart_new 0x100 None None)" by (simp add: dlab_def uart_new_def)
  moreover have "bit (3 :: u64) 0" "bit (3 :: u64) 1" by simp_all
  ultimately show ?thesis using uart_register_roundtrip [of "uart_new 0x100 None None" 3] by simp
qed

end
