(* ===== verification/Plic.thy ===== *)
theory Plic
  imports Interfaces
begin

text \<open>
  \<^verbatim>\<open>plic.rs\<close>: the interrupt controller. The boxed closures of \<open>devices_by_irq\<close> are
  represented by the interrupt source they read (a handle of a shared UART or VirtIO cell,
  type \<open>irq_source\<close>); the operations take the function \<open>status\<close> that reads a source, which
  can itself panic when the cell is mutably borrowed.
\<close>

abbreviation (input) PRIORITY_BASE :: u64 where "PRIORITY_BASE \<equiv> 0x0"
abbreviation (input) PRIORITY_END :: u64 where "PRIORITY_END \<equiv> 0x1000"
abbreviation (input) ENABLE_BASE :: u64 where "ENABLE_BASE \<equiv> 0x2000"
abbreviation (input) ENABLE_END :: u64 where "ENABLE_END \<equiv> 0x1f2000"
abbreviation (input) ENABLE_STRIDE :: u64 where "ENABLE_STRIDE \<equiv> 0x80"
abbreviation (input) CONTEXT_BASE :: u64 where "CONTEXT_BASE \<equiv> 0x200000"
abbreviation (input) CONTEXT_STRIDE :: u64 where "CONTEXT_STRIDE \<equiv> 0x1000"
abbreviation (input) THRESHOLD_OFFSET :: u64 where "THRESHOLD_OFFSET \<equiv> 0x0"
abbreviation (input) CLAIM_OFFSET :: u64 where "CLAIM_OFFSET \<equiv> 0x4"

abbreviation (input) MAX_IRQ :: nat where "MAX_IRQ \<equiv> 32"
abbreviation (input) MAX_CONTEXTS :: nat where "MAX_CONTEXTS \<equiv> 64"

datatype irq_source = Uart_source nat | Virtio_source nat

record plic =
  plic_size :: u64
  devices_by_irq :: "(u32 \<times> irq_source) list"
  priority :: "nat \<Rightarrow> u32"
  enable :: "nat \<Rightarrow> u32"
  threshold :: "nat \<Rightarrow> u32"

definition plic_new :: "u64 \<Rightarrow> plic" where
  "plic_new sz =
     \<lparr>plic_size = sz, devices_by_irq = [], priority = (\<lambda>_. 0), enable = (\<lambda>_. 0),
      threshold = (\<lambda>_. 0)\<rparr>"

definition enable_get :: "plic \<Rightarrow> u64 \<Rightarrow> u32" where
  "enable_get p ctx = (if unat ctx < MAX_CONTEXTS then enable p (unat ctx) else 0)"

definition enable_set :: "plic \<Rightarrow> u64 \<Rightarrow> u32 \<Rightarrow> plic" where
  "enable_set p ctx v =
     (if unat ctx < MAX_CONTEXTS then p\<lparr>enable := (enable p)(unat ctx := v)\<rparr> else p)"

definition threshold_get :: "plic \<Rightarrow> u64 \<Rightarrow> u32" where
  "threshold_get p ctx = (if unat ctx < MAX_CONTEXTS then threshold p (unat ctx) else 0)"

definition threshold_set :: "plic \<Rightarrow> u64 \<Rightarrow> u32 \<Rightarrow> plic" where
  "threshold_set p ctx v =
     (if unat ctx < MAX_CONTEXTS then p\<lparr>threshold := (threshold p)(unat ctx := v)\<rparr> else p)"

definition register_irq :: "u32 \<Rightarrow> irq_source \<Rightarrow> plic \<Rightarrow> plic" where
  "register_irq irq source p = p\<lparr>devices_by_irq := devices_by_irq p @ [(irq, source)]\<rparr>"

text \<open>The loop of \<open>pending_mask\<close> over the registered devices.\<close>

fun pending_loop :: "(irq_source \<Rightarrow> u32 res) \<Rightarrow> (u32 \<times> irq_source) list \<Rightarrow> u32 \<Rightarrow> u32 res" where
  "pending_loop status [] pmask = Inr pmask"
| "pending_loop status ((irq, source) # rest) pmask =
     (case status source of
        Inl e \<Rightarrow> Inl e
      | Inr s \<Rightarrow> pending_loop status rest
                   (if s AND 1 \<noteq> 0 then pmask OR wshl 1 (unat irq) else pmask))"

definition pending_mask :: "(irq_source \<Rightarrow> u32 res) \<Rightarrow> plic \<Rightarrow> u32 res" where
  "pending_mask status p = pending_loop status (devices_by_irq p) 0"

text \<open>One iteration of the search loop of \<open>claim_irq\<close>, on (best irq, best priority).\<close>

definition claim_step :: "plic \<Rightarrow> u32 \<Rightarrow> nat \<Rightarrow> nat \<times> u32 \<Rightarrow> nat \<times> u32" where
  "claim_step p candidates irq best =
     (if candidates AND push_bit irq 1 \<noteq> 0 \<and> snd best < priority p irq
      then (irq, priority p irq) else best)"

definition claim_search :: "plic \<Rightarrow> u32 \<Rightarrow> u32 \<Rightarrow> nat" where
  "claim_search p candidates thr = fst (fold (claim_step p candidates) [1..<MAX_IRQ] (0, thr))"

definition claim_irq :: "(irq_source \<Rightarrow> u32 res) \<Rightarrow> plic \<Rightarrow> u64 \<Rightarrow> u32 res" where
  "claim_irq status p ctx =
     (case pending_mask status p of
        Inl e \<Rightarrow> Inl e
      | Inr pmask \<Rightarrow>
          Inr (of_nat (claim_search p (pmask AND enable_get p ctx) (threshold_get p ctx))))"

definition claimable :: "(irq_source \<Rightarrow> u32 res) \<Rightarrow> plic \<Rightarrow> u64 \<Rightarrow> bool res" where
  "claimable status p ctx = map_sum id (\<lambda>irq. irq \<noteq> 0) (claim_irq status p ctx)"

definition plic_len :: "plic \<Rightarrow> u64" where
  "plic_len p = plic_size p"

definition plic_read :: "(irq_source \<Rightarrow> u32 res) \<Rightarrow> u64 \<Rightarrow> u8 \<Rightarrow> (plic, u64) op" where
  "plic_read status address sz = (\<lambda>p.
     (if sz \<noteq> 4 then error (Plic_access_size sz)
      else if PRIORITY_BASE \<le> address \<and> address < PRIORITY_END then
        (let irq = unat (address div 4) in
         Inr (if irq < MAX_IRQ then ucast (priority p irq) else 0))
      else if ENABLE_BASE \<le> address \<and> address < ENABLE_END then
        (let ctx = (address - ENABLE_BASE) div ENABLE_STRIDE in Inr (ucast (enable_get p ctx)))
      else if CONTEXT_BASE \<le> address then
        (let ctx = (address - CONTEXT_BASE) div CONTEXT_STRIDE;
             off = (address - CONTEXT_BASE) mod CONTEXT_STRIDE
         in if off = THRESHOLD_OFFSET then Inr (ucast (threshold_get p ctx))
            else if off = CLAIM_OFFSET then map_sum id ucast (claim_irq status p ctx)
            else Inr 0)
      else Inr 0, p))"

definition plic_write :: "u64 \<Rightarrow> u8 \<Rightarrow> u64 \<Rightarrow> (plic, unit) op" where
  "plic_write address sz val = (\<lambda>p.
     if sz \<noteq> 4 then (error (Plic_access_size sz), p)
     else let v = (ucast val :: u32) in
     if PRIORITY_BASE \<le> address \<and> address < PRIORITY_END then
       (let irq = unat (address div 4) in
        (Inr (), if irq < MAX_IRQ then p\<lparr>priority := (priority p)(irq := v)\<rparr> else p))
     else if ENABLE_BASE \<le> address \<and> address < ENABLE_END then
       (let ctx = (address - ENABLE_BASE) div ENABLE_STRIDE in (Inr (), enable_set p ctx v))
     else if CONTEXT_BASE \<le> address then
       (let ctx = (address - CONTEXT_BASE) div CONTEXT_STRIDE;
            off = (address - CONTEXT_BASE) mod CONTEXT_STRIDE
        in (Inr (), if off = THRESHOLD_OFFSET then threshold_set p ctx v else p))
     else (Inr (), p))"

section \<open>Claiming\<close>

interpretation plic_dev: mmio_device plic_len "plic_read status" plic_write
  by unfold_locales
    (auto simp: plic_len_def plic_read_def plic_write_def enable_set_def threshold_set_def Let_def)

lemma plic_read_pure: "pure_op (plic_read status a n)"
  by (simp add: pure_op_def plic_read_def)

text \<open>What a claim looks for: an interrupt that is a candidate and beats the threshold, and among
  those the one with the highest priority, the lowest number breaking ties.\<close>

definition eligible :: "plic \<Rightarrow> u32 \<Rightarrow> u32 \<Rightarrow> nat \<Rightarrow> bool" where
  "eligible p candidates thr i \<longleftrightarrow> bit candidates i \<and> thr < priority p i"

definition preferred :: "plic \<Rightarrow> nat \<Rightarrow> nat \<Rightarrow> bool" where
  "preferred p i j \<longleftrightarrow> priority p j < priority p i \<or> priority p j = priority p i \<and> i \<le> j"



definition search_result :: "plic \<Rightarrow> u32 \<Rightarrow> u32 \<Rightarrow> nat \<Rightarrow> nat \<times> u32 \<Rightarrow> bool" where
  "search_result p candidates thr n best \<longleftrightarrow>
     (if \<exists>i \<in> {1..<n}. eligible p candidates thr i
      then fst best \<in> {1..<n} \<and> eligible p candidates thr (fst best) \<and> snd best = priority p (fst best)
        \<and> (\<forall>j \<in> {1..<n}. eligible p candidates thr j \<longrightarrow> preferred p (fst best) j)
      else best = (0, thr))"

lemma search_result_step:
  assumes "search_result p candidates thr n best" "0 < n" "n < 32"
  shows "search_result p candidates thr (Suc n) (claim_step p candidates n best)"
proof -
  have step: "claim_step p candidates n best
      = (if bit candidates n \<and> snd best < priority p n then (n, priority p n) else best)"
    by (simp add: claim_step_def and_exp_eq_0_iff_not_bit)
  have split: "{1..<Suc n} = insert n {1..<n}" using assms(2) by auto
  show ?thesis
  proof (cases "\<exists>i \<in> {1..<n}. eligible p candidates thr i")
    case True
    with assms(1) have b: "fst best \<in> {1..<n}" "eligible p candidates thr (fst best)"
      "snd best = priority p (fst best)"
      "\<forall>j \<in> {1..<n}. eligible p candidates thr j \<longrightarrow> preferred p (fst best) j"
      by (auto simp: search_result_def)
    then show ?thesis
      unfolding step search_result_def split
      by (auto simp: eligible_def preferred_def intro: less_trans order.strict_trans1)
  next
    case False
    with assms(1) have "best = (0, thr)" by (simp add: search_result_def)
    with False show ?thesis
      unfolding step search_result_def split by (auto simp: eligible_def preferred_def)
  qed
qed

lemma claim_search_result:
  "n \<le> 32 \<Longrightarrow> search_result p candidates thr n (fold (claim_step p candidates) [1..<n] (0, thr))"
proof (induction n)
  case (Suc n)
  then show ?case
    by (cases "n = 0") (auto simp: search_result_def [of _ _ _ "Suc 0"] intro: search_result_step)
qed (simp add: search_result_def)

lemma pending_loop_bits:
  assumes "\<forall>(irq, source) \<in> set devs. status source = Inr (st source)"
  shows "\<exists>m. pending_loop status devs acc = Inr m
    \<and> (\<forall>i < 32. bit m i \<longleftrightarrow> bit acc i
         \<or> (\<exists>(irq, source) \<in> set devs. unat irq mod 32 = i \<and> bit (st source) 0))"
  using assms
proof (induction devs arbitrary: acc)
  case (Cons d devs)
  obtain irq source where d: "d = (irq, source)" by fastforce
  let ?acc = "if bit (st source) 0 then acc OR wshl 1 (unat irq) else acc"
  have "\<forall>(irq, source) \<in> set devs. status source = Inr (st source)" using Cons.prems by simp
  from Cons.IH [OF this, of ?acc] obtain m where m: "pending_loop status devs ?acc = Inr m"
    "\<forall>i < 32. bit m i \<longleftrightarrow> bit ?acc i
         \<or> (\<exists>(irq, source) \<in> set devs. unat irq mod 32 = i \<and> bit (st source) 0)"
    by blast
  have "pending_loop status (d # devs) acc = Inr m"
    using Cons.prems m(1) by (simp add: d and_literal_bit)
  moreover have "\<forall>i < 32. bit m i \<longleftrightarrow> bit acc i
         \<or> (\<exists>(irq, source) \<in> set (d # devs). unat irq mod 32 = i \<and> bit (st source) 0)"
    using m(2) by (auto simp: d wshl_def bit_simps split: if_splits)
  ultimately show ?case by blast
qed simp

text \<open>Interrupt \<open>i\<close> asks for service in a context, when the sources read as \<open>st\<close>: a source
  registered for a number congruent to \<open>i\<close> modulo 32 has its lowest status bit set, the context
  enables \<open>i\<close>, and the priority of \<open>i\<close> is above its threshold.\<close>

definition wanted :: "plic \<Rightarrow> (irq_source \<Rightarrow> u32) \<Rightarrow> u64 \<Rightarrow> nat \<Rightarrow> bool" where
  "wanted p st ctx i \<longleftrightarrow> 1 \<le> i \<and> i < 32
     \<and> list_ex (\<lambda>(irq, source). unat irq mod 32 = i \<and> bit (st source) 0) (devices_by_irq p)
     \<and> bit (enable_get p ctx) i \<and> threshold_get p ctx < priority p i"

text \<open>
  C6: claiming. When every registered source can be read (\<open>st\<close> is what they give), a claim
  returns 0 exactly when no interrupt 1 to 31 is pending, enabled for the context and above its
  threshold; otherwise it returns such an interrupt whose priority is the highest, and of those
  the one with the lowest number.
\<close>

theorem claim_irq_correct:
  assumes "\<forall>(irq, source) \<in> set (devices_by_irq p). status source = Inr (st source)"
  shows "\<exists>b. claim_irq status p ctx = Inr (of_nat b)
    \<and> (if \<exists>i. wanted p st ctx i
       then wanted p st ctx b \<and> (\<forall>j. wanted p st ctx j \<longrightarrow> preferred p b j) else b = 0)"
proof -
  from pending_loop_bits [OF assms, of 0] obtain m where m: "pending_mask status p = Inr m"
    "\<And>i. i < 32 \<Longrightarrow> bit m i \<longleftrightarrow>
       (\<exists>(irq, source) \<in> set (devices_by_irq p). unat irq mod 32 = i \<and> bit (st source) 0)"
    by (auto simp: pending_mask_def)
  let ?c = "m AND enable_get p ctx" and ?t = "threshold_get p ctx"
  have w: "wanted p st ctx i \<longleftrightarrow> i \<in> {1..<32} \<and> eligible p ?c ?t i" for i
    using m(2) [of i] by (auto simp: wanted_def eligible_def bit_and_iff list_ex_iff)
  have "claim_irq status p ctx = Inr (of_nat (claim_search p ?c ?t))"
    by (simp add: claim_irq_def m(1))
  then show ?thesis
    using claim_search_result [of 32 p ?c ?t] unfolding search_result_def claim_search_def w
    by (intro exI [of _ "claim_search p ?c ?t"]) (auto simp: claim_search_def split: if_splits)
qed

definition two_sources :: plic where
  "two_sources =
     \<lparr>plic_size = 0x4000000, devices_by_irq = [(10, Uart_source 0), (1, Virtio_source 0)],
      priority = (\<lambda>_. 0)(1 := 1, 10 := 1), enable = (\<lambda>_. 0)(1 := 0x402), threshold = (\<lambda>_. 0)\<rparr>"

theorem claim_irq_correct_witness: "claim_irq (\<lambda>_. Inr 1) two_sources 1 = Inr 1"
proof -
  have "\<forall>(irq, source) \<in> set (devices_by_irq two_sources). (\<lambda>_. Inr 1) source = Inr ((\<lambda>_. 1) source)"
    by simp
  from claim_irq_correct [OF this, of 1] obtain b
    where b: "claim_irq (\<lambda>_. Inr 1) two_sources 1 = Inr (of_nat b)"
      "if \<exists>i. wanted two_sources (\<lambda>_. 1) 1 i
       then wanted two_sources (\<lambda>_. 1) 1 b
         \<and> (\<forall>j. wanted two_sources (\<lambda>_. 1) 1 j \<longrightarrow> preferred two_sources b j) else b = 0"
    by blast
  have "wanted two_sources (\<lambda>_. 1) 1 1"
    by (simp add: wanted_def two_sources_def enable_get_def threshold_get_def)
  with b(2) have "1 \<le> b" "preferred two_sources b 1" by (auto simp: wanted_def split: if_splits)
  then have "b = 1" by (auto simp: preferred_def two_sources_def split: if_splits)
  with b(1) show ?thesis by simp
qed

lemma plic_addresses:
  assumes "irq < 32" "k < 64"
  shows "unat (of_nat (4 * irq) :: u64) = 4 * irq"
    "unat (ENABLE_BASE + of_nat (0x80 * k)) = 0x2000 + 0x80 * k"
    "unat (CONTEXT_BASE + of_nat (0x1000 * k)) = 0x200000 + 0x1000 * k"
    "unat (of_nat (0x80 * k) :: u64) = 0x80 * k" "unat (of_nat (0x1000 * k) :: u64) = 0x1000 * k"
  using assms by (simp_all add: unat_word_ariths unat_of_nat del: of_nat_mult)

text \<open>
  C29: the register map. For every interrupt number below 32 and context below 64, the word at
  \<open>4 * irq\<close> is the priority, the word at \<open>0x2000 + 0x80 * k\<close> the enable word and the word at
  \<open>0x200000 + 0x1000 * k\<close> the threshold: a write replaces that register and nothing else, a read
  gives it.
\<close>

theorem plic_register_map:
  assumes "irq < 32" "k < 64"
  shows "plic_write (of_nat (4 * irq)) 4 v p = (Inr (), p\<lparr>priority := (priority p)(irq := ucast v)\<rparr>)
    \<and> plic_read status (of_nat (4 * irq)) 4 p = (Inr (ucast (priority p irq)), p)
    \<and> plic_write (ENABLE_BASE + of_nat (0x80 * k)) 4 v p = (Inr (), p\<lparr>enable := (enable p)(k := ucast v)\<rparr>)
    \<and> plic_read status (ENABLE_BASE + of_nat (0x80 * k)) 4 p = (Inr (ucast (enable p k)), p)
    \<and> plic_write (CONTEXT_BASE + of_nat (0x1000 * k)) 4 v p
        = (Inr (), p\<lparr>threshold := (threshold p)(k := ucast v)\<rparr>)
    \<and> plic_read status (CONTEXT_BASE + of_nat (0x1000 * k)) 4 p = (Inr (ucast (threshold p k)), p)"
proof -
  note A = plic_addresses [OF assms]
  have prio: "unat (of_nat (4 * irq) div 4 :: u64) = irq" "(of_nat (4 * irq) :: u64) < PRIORITY_END"
    using A(1) assms(1) by (simp_all add: unat_div word_less_nat_alt)
  have en: "unat (of_nat (0x80 * k) div ENABLE_STRIDE) = k"
    "\<not> ENABLE_BASE + of_nat (0x80 * k) < PRIORITY_END" "ENABLE_BASE \<le> ENABLE_BASE + of_nat (0x80 * k)"
    "ENABLE_BASE + of_nat (0x80 * k) < ENABLE_END"
    using A(2,4) assms(2) by (simp_all add: unat_div word_less_nat_alt word_le_nat_alt)
  have cx: "unat (of_nat (0x1000 * k) div CONTEXT_STRIDE) = k" "of_nat (0x1000 * k) mod CONTEXT_STRIDE = 0"
    "\<not> CONTEXT_BASE + of_nat (0x1000 * k) < PRIORITY_END"
    "\<not> CONTEXT_BASE + of_nat (0x1000 * k) < ENABLE_END" "CONTEXT_BASE \<le> CONTEXT_BASE + of_nat (0x1000 * k)"
    using A(3,5) assms(2) by (simp_all add: unat_div word_less_nat_alt word_le_nat_alt word_unat_eq_iff unat_mod)
  show ?thesis
    using prio en cx assms
    by (simp add: plic_write_def plic_read_def enable_set_def enable_get_def threshold_set_def
        threshold_get_def del: of_nat_mult)
qed

theorem plic_register_map_witness:
  "plic_read (\<lambda>_. Inr 0) (ENABLE_BASE + of_nat (0x80 * 1)) 4 two_sources = (Inr 0x402, two_sources)"
  using plic_register_map [of 1 1 0 two_sources "\<lambda>_. Inr 0"] by (simp add: two_sources_def)

end
