(* ===== verification/Virtio.thy ===== *)
theory Virtio
  imports Interfaces
begin

text \<open>
  \<^verbatim>\<open>virtio.rs\<close>: the VirtIO MMIO block device. The bus it does its DMA through is the argument
  \<open>bus: &mut Bus\<close> of \<open>write\<close>; here it is a state \<open>'b\<close> with its read and write operations
  \<open>rd\<close> and \<open>wr\<close>, so that the bus theory can tie the knot. Both loops of the queue processing
  are total functions: the descriptor walk ends because its \<open>seen\<close> set grows inside the 65536
  descriptor numbers, the queue loop because the distance from \<open>last\<close> to \<open>avail_idx\<close> (modulo
  the 16-bit wrap-around) falls by one per request.
\<close>

abbreviation (input) PAGE_SIZE :: u64 where "PAGE_SIZE \<equiv> 0x1000"

abbreviation (input) MAGIC_VALUE :: u64 where "MAGIC_VALUE \<equiv> 0x000"
abbreviation (input) VERSION :: u64 where "VERSION \<equiv> 0x004"
abbreviation (input) DEVICE_ID :: u64 where "DEVICE_ID \<equiv> 0x008"
abbreviation (input) VENDOR_ID :: u64 where "VENDOR_ID \<equiv> 0x00c"
abbreviation (input) DEVICE_FEATURES :: u64 where "DEVICE_FEATURES \<equiv> 0x010"
abbreviation (input) DRIVER_FEATURES :: u64 where "DRIVER_FEATURES \<equiv> 0x020"
abbreviation (input) QUEUE_SEL :: u64 where "QUEUE_SEL \<equiv> 0x030"
abbreviation (input) QUEUE_NUM_MAX :: u64 where "QUEUE_NUM_MAX \<equiv> 0x034"
abbreviation (input) QUEUE_NUM :: u64 where "QUEUE_NUM \<equiv> 0x038"
abbreviation (input) QUEUE_READY :: u64 where "QUEUE_READY \<equiv> 0x044"
abbreviation (input) QUEUE_NOTIFY :: u64 where "QUEUE_NOTIFY \<equiv> 0x050"
abbreviation (input) INTERRUPT_STATUS :: u64 where "INTERRUPT_STATUS \<equiv> 0x060"
abbreviation (input) INTERRUPT_ACK :: u64 where "INTERRUPT_ACK \<equiv> 0x064"
abbreviation (input) STATUS :: u64 where "STATUS \<equiv> 0x070"
abbreviation (input) QUEUE_DESC_LOW :: u64 where "QUEUE_DESC_LOW \<equiv> 0x080"
abbreviation (input) QUEUE_DESC_HIGH :: u64 where "QUEUE_DESC_HIGH \<equiv> 0x084"
abbreviation (input) DRIVER_DESC_LOW :: u64 where "DRIVER_DESC_LOW \<equiv> 0x090"
abbreviation (input) DRIVER_DESC_HIGH :: u64 where "DRIVER_DESC_HIGH \<equiv> 0x094"
abbreviation (input) DEVICE_DESC_LOW :: u64 where "DEVICE_DESC_LOW \<equiv> 0x0a0"
abbreviation (input) DEVICE_DESC_HIGH :: u64 where "DEVICE_DESC_HIGH \<equiv> 0x0a4"

abbreviation (input) MAGIC :: u64 where "MAGIC \<equiv> 0x74726976"
abbreviation (input) VENDOR :: u64 where "VENDOR \<equiv> 0x554d4551"
abbreviation (input) DEVICE_ID_BLK :: u64 where "DEVICE_ID_BLK \<equiv> 2"
abbreviation (input) MMIO_VERSION :: u64 where "MMIO_VERSION \<equiv> 2"
abbreviation (input) QUEUE_NUM_MAX_VALUE :: u64 where "QUEUE_NUM_MAX_VALUE \<equiv> 0x8000"
abbreviation (input) VIRTQ_DESC_F_NEXT :: u16 where "VIRTQ_DESC_F_NEXT \<equiv> 1"
abbreviation (input) VIRTIO_BLK_T_IN :: u32 where "VIRTIO_BLK_T_IN \<equiv> 0"
abbreviation (input) VIRTIO_BLK_T_OUT :: u32 where "VIRTIO_BLK_T_OUT \<equiv> 1"
abbreviation (input) SECTOR_SIZE :: u64 where "SECTOR_SIZE \<equiv> 512"

record virtio_blk =
  disk :: "u8 list"
  device_features :: u32
  driver_features :: u32
  queue_sel :: u32
  queue_num :: u32
  queue_ready :: u32
  desc_addr :: u64
  avail_addr :: u64
  used_addr :: u64
  virtio_status :: u32
  interrupt_status :: u32
  last_avail_idx :: "u32 \<rightharpoonup> u16"

definition virtio_new :: "u64 \<Rightarrow> u8 list option \<Rightarrow> virtio_blk" where
  "virtio_new disk_size disk_image =
     \<lparr>disk = (case disk_image of
                Some img \<Rightarrow>
                  (if length img < unat disk_size
                   then img @ replicate (unat disk_size - length img) 0 else img)
              | None \<Rightarrow> replicate (unat disk_size) 0),
      device_features = 0, driver_features = 0, queue_sel = 0, queue_num = 0, queue_ready = 0,
      desc_addr = 0, avail_addr = 0, used_addr = 0, virtio_status = 0, interrupt_status = 0,
      last_avail_idx = Map.empty\<rparr>"

definition virtio_len :: "virtio_blk \<Rightarrow> u64" where
  "virtio_len v = PAGE_SIZE"

definition virtio_read :: "u64 \<Rightarrow> u8 \<Rightarrow> (virtio_blk, u64) op" where
  "virtio_read address sz = (\<lambda>v.
     (if sz \<noteq> 4 then error (Virtio_read_size sz address)
      else Inr
       (if address = MAGIC_VALUE then MAGIC
        else if address = VERSION then MMIO_VERSION
        else if address = DEVICE_ID then DEVICE_ID_BLK
        else if address = VENDOR_ID then VENDOR
        else if address = DEVICE_FEATURES then ucast (device_features v)
        else if address = QUEUE_NUM_MAX then QUEUE_NUM_MAX_VALUE
        else if address = QUEUE_READY then ucast (queue_ready v)
        else if address = INTERRUPT_STATUS then ucast (interrupt_status v)
        else if address = STATUS then ucast (virtio_status v)
        else 0), v))"

section \<open>Descriptor chains\<close>

type_synonym 'b bus_rd = "u64 \<Rightarrow> u8 \<Rightarrow> ('b, u64) op"
type_synonym 'b bus_wr = "u64 \<Rightarrow> u8 \<Rightarrow> u64 \<Rightarrow> ('b, unit) op"
type_synonym desc = "u64 \<times> u32 \<times> u16"

text \<open>One descriptor: its address, length and flags, and the number of the next one.\<close>

definition read_desc :: "'b bus_rd \<Rightarrow> u64 \<Rightarrow> u16 \<Rightarrow> ('b, desc \<times> u16) op" where
  "read_desc rd desc_base idx =
     (let off = desc_base + ucast idx * 16 in
      and_then (rd off 8) (\<lambda>addr.
      and_then (rd (off + 8) 4) (\<lambda>len.
      and_then (rd (off + 12) 2) (\<lambda>flags.
      and_then (rd (off + 14) 2) (\<lambda>nxt.
      ok ((addr, ucast len, ucast flags), ucast nxt))))))"

function chain_loop :: "'b bus_rd \<Rightarrow> u64 \<Rightarrow> u16 \<Rightarrow> u16 set \<Rightarrow> desc list \<Rightarrow> ('b, desc list) op" where
  "chain_loop rd desc_base idx seen descs =
     (if idx \<in> seen then ok descs
      else and_then (read_desc rd desc_base idx) (\<lambda>(d, nxt).
        if snd (snd d) AND VIRTQ_DESC_F_NEXT \<noteq> 0
        then chain_loop rd desc_base nxt (insert idx seen) (descs @ [d])
        else ok (descs @ [d])))"
  by pat_completeness auto
termination
proof (relation "measure (\<lambda>(rd, desc_base, idx, seen, descs). card (- seen))")
  fix idx :: u16 and seen :: "u16 set"
  assume "idx \<notin> seen"
  then have "- insert idx seen \<subset> - seen" by auto
  then have "card (- insert idx seen) < card (- seen)"
    by (rule psubset_card_mono [rotated]) simp
  then show "((rd, base, nxt, insert idx seen, ds), (rd', base', idx, seen, ds'))
      \<in> measure (\<lambda>(rd, desc_base, idx, seen, descs). card (- seen))" for rd base nxt ds rd' base' ds'
    by simp
qed simp

declare chain_loop.simps [simp del]

text \<open>The byte loops of the two request directions.\<close>

fun dma_to_guest :: "'b bus_wr \<Rightarrow> u64 \<Rightarrow> u8 list \<Rightarrow> ('b, unit) op" where
  "dma_to_guest wr addr [] = ok ()"
| "dma_to_guest wr addr (b # bs) =
     and_then (wr addr 1 (ucast b)) (\<lambda>_. dma_to_guest wr (addr + 1) bs)"

fun dma_from_guest :: "'b bus_rd \<Rightarrow> u64 \<Rightarrow> nat \<Rightarrow> ('b, u8 list) op" where
  "dma_from_guest rd addr 0 = ok []"
| "dma_from_guest rd addr (Suc n) =
     and_then (rd addr 1) (\<lambda>b.
     and_then (dma_from_guest rd (addr + 1) n) (\<lambda>bs. ok (ucast b # bs)))"

text \<open>
  \<open>if end > disk.len() { disk.resize(end, 0) }\<close>. A capacity beyond \<open>isize::MAX\<close> panics; running
  out of host memory is outside the model.
\<close>

definition disk_grow :: "nat \<Rightarrow> (virtio_blk \<times> 'b, unit) op" where
  "disk_grow e = (\<lambda>(v, b).
     if length (disk v) < e then
       (if e < 2 ^ 63
        then (Inr (), (v\<lparr>disk := disk v @ replicate (e - length (disk v)) 0\<rparr>, b))
        else (Inl (Panic Capacity_overflow), (v, b)))
     else (Inr (), (v, b)))"

text \<open>\<open>disk[offset..end]\<close> as a copy, and as the target of \<open>copy_from_slice\<close>.\<close>

definition disk_slice :: "nat \<Rightarrow> nat \<Rightarrow> (virtio_blk \<times> 'b, u8 list) op" where
  "disk_slice from to = (\<lambda>(v, b).
     if from \<le> to \<and> to \<le> length (disk v)
     then (Inr (take (to - from) (drop from (disk v))), (v, b))
     else (Inl (Panic Slice_out_of_range), (v, b)))"

definition disk_store :: "nat \<Rightarrow> nat \<Rightarrow> u8 list \<Rightarrow> (virtio_blk \<times> 'b, unit) op" where
  "disk_store from to bs = (\<lambda>(v, b).
     if from \<le> to \<and> to \<le> length (disk v) \<and> to - from = length bs
     then (Inr (), (v\<lparr>disk := take from (disk v) @ bs @ drop to (disk v)\<rparr>, b))
     else (Inl (Panic Slice_out_of_range), (v, b)))"

text \<open>The block request proper: the part of \<open>process_descriptor_chain\<close> that runs on the header
  and data descriptors.\<close>

definition block_request ::
  "'b bus_rd \<Rightarrow> 'b bus_wr \<Rightarrow> u64 \<Rightarrow> u64 \<Rightarrow> u32 \<Rightarrow> (virtio_blk \<times> 'b, unit) op" where
  "block_request rd wr header_addr data_addr data_len =
     and_then (on_snd (rd header_addr 4)) (\<lambda>req.
     and_then (on_snd (rd (header_addr + 8) 8)) (\<lambda>sector.
     let req_type = (ucast req :: u32);
         offset = sector * SECTOR_SIZE;
         e = unat (offset + ucast data_len)
     in
     if req_type = VIRTIO_BLK_T_IN then
       and_then (disk_grow e) (\<lambda>_.
       and_then (disk_slice (unat offset) e) (\<lambda>chunk.
       on_snd (dma_to_guest wr data_addr chunk)))
     else if req_type = VIRTIO_BLK_T_OUT then
       and_then (on_snd (dma_from_guest rd data_addr (unat data_len))) (\<lambda>chunk.
       and_then (disk_grow e) (\<lambda>_.
       disk_store (unat offset) e chunk))
     else ok ()))"

definition process_descriptor_chain ::
  "'b bus_rd \<Rightarrow> 'b bus_wr \<Rightarrow> u64 \<Rightarrow> u16 \<Rightarrow> (virtio_blk \<times> 'b, u32) op" where
  "process_descriptor_chain rd wr desc_base head =
     and_then (on_snd (chain_loop rd desc_base head {} [])) (\<lambda>descs.
     if length descs < 3 then ok 0
     else
       (case (descs ! 0, descs ! 1, descs ! (length descs - 1)) of
          ((header_addr, _, _), (data_addr, data_len, _), (status_addr, _, _)) \<Rightarrow>
            and_then (block_request rd wr header_addr data_addr data_len) (\<lambda>_.
            and_then (on_snd (wr status_addr 1 0)) (\<lambda>_.
            ok 0))))"

section \<open>The queue\<close>

text \<open>One round of the \<open>while last != avail_idx\<close> loop, up to the two index increments.\<close>

definition queue_round ::
  "'b bus_rd \<Rightarrow> 'b bus_wr \<Rightarrow> u64 \<Rightarrow> u64 \<Rightarrow> u64 \<Rightarrow> u16 \<Rightarrow> u16 \<Rightarrow> (virtio_blk \<times> 'b, unit) op" where
  "queue_round rd wr desc_base avail_base used_base lst used_idx =
     and_then (gets (\<lambda>(v, b). ucast (queue_num v) :: u64)) (\<lambda>qn.
     let ring_off = avail_base + 4 + (ucast lst mod qn) * 2 in
     and_then (on_snd (rd ring_off 2)) (\<lambda>h.
     let head = (ucast h :: u16) in
     and_then (process_descriptor_chain rd wr desc_base head) (\<lambda>len.
     let used_elem_off = used_base + 4 + (ucast used_idx mod qn) * 8 in
     and_then (on_snd (wr used_elem_off 4 (ucast head))) (\<lambda>_.
     and_then (on_snd (wr (used_elem_off + 4) 4 (ucast len))) (\<lambda>_.
     on_snd (wr (used_base + 2) 2 (ucast (used_idx + 1))))))))"

function queue_loop ::
  "'b bus_rd \<Rightarrow> 'b bus_wr \<Rightarrow> u64 \<Rightarrow> u64 \<Rightarrow> u64 \<Rightarrow> u16 \<Rightarrow> u16 \<Rightarrow> u16
     \<Rightarrow> (virtio_blk \<times> 'b, u16) op" where
  "queue_loop rd wr desc_base avail_base used_base avail_idx lst used_idx =
     (if lst = avail_idx then ok lst
      else and_then (queue_round rd wr desc_base avail_base used_base lst used_idx) (\<lambda>_.
        queue_loop rd wr desc_base avail_base used_base avail_idx (lst + 1) (used_idx + 1)))"
  by pat_completeness auto
termination
proof (relation "measure (\<lambda>(rd, wr, d, a, u, avail_idx, lst, used_idx). unat (avail_idx - lst))")
  fix avail_idx lst :: u16
  assume "lst \<noteq> avail_idx"
  then have "avail_idx - lst \<noteq> 0" by simp
  then have "unat (avail_idx - lst - 1) < unat (avail_idx - lst)"
    by (simp add: unat_minus_one unat_gt_0)
  then show "((rd, wr, d, a, u, avail_idx, lst + 1, used_idx + 1),
       (rd', wr', d', a', u', avail_idx, lst, used_idx))
      \<in> measure (\<lambda>(rd, wr, d, a, u, avail_idx, lst, used_idx). unat (avail_idx - lst))"
    for rd wr d a u rd' wr' d' a' u' and used_idx :: u16
    by (simp add: algebra_simps)
qed simp

declare queue_loop.simps [simp del]

text \<open>\<open>self.last_avail_idx.insert(queue_idx, last); self.interrupt_status |= 1\<close>.\<close>

definition queue_done :: "u32 \<Rightarrow> u16 \<Rightarrow> (virtio_blk \<times> 'b, unit) op" where
  "queue_done queue_idx lst =
     modify (\<lambda>(v, b). (v\<lparr>last_avail_idx := (last_avail_idx v)(queue_idx \<mapsto> lst),
                         interrupt_status := interrupt_status v OR 1\<rparr>, b))"

text \<open>\<open>process_queue\<close> past its guard, with the addresses it copied and the saved index.\<close>

definition serve_queue ::
  "'b bus_rd \<Rightarrow> 'b bus_wr \<Rightarrow> u32 \<Rightarrow> u64 \<Rightarrow> u64 \<Rightarrow> u64 \<Rightarrow> u16 option \<Rightarrow> (virtio_blk \<times> 'b, unit) op" where
  "serve_queue rd wr queue_idx desc_base avail_base used_base saved =
     and_then (on_snd (rd (avail_base + 2) 2)) (\<lambda>av.
     and_then (on_snd (rd (used_base + 2) 2)) (\<lambda>us.
     let avail_idx = (ucast av :: u16);
         used_idx_initial = (ucast us :: u16);
         lst = (case saved of Some l \<Rightarrow> l | None \<Rightarrow> used_idx_initial)
     in
     and_then (queue_loop rd wr desc_base avail_base used_base avail_idx lst used_idx_initial)
       (queue_done queue_idx)))"

definition process_queue :: "'b bus_rd \<Rightarrow> 'b bus_wr \<Rightarrow> u32 \<Rightarrow> (virtio_blk \<times> 'b, unit) op" where
  "process_queue rd wr queue_idx = (\<lambda>(v, b).
     if queue_ready v = 0 \<or> queue_num v = 0 then (Inr (), (v, b))
     else serve_queue rd wr queue_idx (desc_addr v) (avail_addr v) (used_addr v)
            (last_avail_idx v queue_idx) (v, b))"

definition virtio_write ::
  "'b bus_rd \<Rightarrow> 'b bus_wr \<Rightarrow> u64 \<Rightarrow> u8 \<Rightarrow> u64 \<Rightarrow> (virtio_blk \<times> 'b, unit) op" where
  "virtio_write rd wr address sz val = (\<lambda>(v, b).
     if sz \<noteq> 4 then (error (Virtio_write_size sz address), (v, b))
     else let v32 = (ucast val :: u32); lo = 0xffffffff :: u64 in
     if address = DRIVER_FEATURES then (Inr (), (v\<lparr>driver_features := v32\<rparr>, b))
     else if address = QUEUE_SEL then (Inr (), (v\<lparr>queue_sel := v32\<rparr>, b))
     else if address = QUEUE_NUM then (Inr (), (v\<lparr>queue_num := v32\<rparr>, b))
     else if address = QUEUE_READY then (Inr (), (v\<lparr>queue_ready := v32\<rparr>, b))
     else if address = QUEUE_DESC_LOW then
       (Inr (), (v\<lparr>desc_addr := (desc_addr v AND NOT lo) OR val\<rparr>, b))
     else if address = QUEUE_DESC_HIGH then
       (Inr (), (v\<lparr>desc_addr := (desc_addr v AND lo) OR push_bit 32 val\<rparr>, b))
     else if address = DRIVER_DESC_LOW then
       (Inr (), (v\<lparr>avail_addr := (avail_addr v AND NOT lo) OR val\<rparr>, b))
     else if address = DRIVER_DESC_HIGH then
       (Inr (), (v\<lparr>avail_addr := (avail_addr v AND lo) OR push_bit 32 val\<rparr>, b))
     else if address = DEVICE_DESC_LOW then
       (Inr (), (v\<lparr>used_addr := (used_addr v AND NOT lo) OR val\<rparr>, b))
     else if address = DEVICE_DESC_HIGH then
       (Inr (), (v\<lparr>used_addr := (used_addr v AND lo) OR push_bit 32 val\<rparr>, b))
     else if address = QUEUE_NOTIFY then process_queue rd wr v32 (v, b)
     else if address = INTERRUPT_ACK then
       (Inr (), (v\<lparr>interrupt_status := interrupt_status v AND NOT v32\<rparr>, b))
     else if address = STATUS then
       (Inr (), (if v32 = 0
                 then v\<lparr>virtio_status := v32, queue_ready := 0, queue_num := 0, desc_addr := 0,
                        avail_addr := 0, used_addr := 0, last_avail_idx := Map.empty\<rparr>
                 else v\<lparr>virtio_status := v32\<rparr>, b))
     else (Inr (), (v, b)))"

section \<open>Two buses that agree\<close>

text \<open>
  What the device does depends on the bus only through its read and write operations: with two
  writers that agree on an invariant the bus accesses keep, a register write has the same effect.
\<close>

locale dma_bus =
  fixes I :: "'b \<Rightarrow> bool" and rd :: "'b bus_rd" and wr wr' :: "'b bus_wr"
  assumes rd_keeps: "keeps I (\<lambda>_. True) (rd a n)"
    and wr_agrees: "agrees I (wr a n v) (wr' a n v)"
begin

lemma rd_agrees: "agrees I (rd a n) (rd a n)"
  by (rule agrees_refl) (rule rd_keeps)

lemma read_desc_keeps: "keeps I (\<lambda>_. True) (read_desc rd base idx)"
  unfolding read_desc_def by (intro keeps_intros rd_keeps)

lemma chain_loop_keeps: "keeps I (\<lambda>_. True) (chain_loop rd base idx seen ds)"
proof (induction "card (- seen)" arbitrary: idx seen ds rule: less_induct)
  case less
  have "card (- insert idx seen) < card (- seen)" if "idx \<notin> seen"
    using that by (intro psubset_card_mono) auto
  then show ?case
    unfolding chain_loop.simps [of rd base idx seen ds]
    by (intro keeps_intros read_desc_keeps less)
qed

lemma disk_agrees:
  "agrees (\<lambda>s. I (snd s)) (disk_grow e) (disk_grow e)"
  "agrees (\<lambda>s. I (snd s)) (disk_slice p q) (disk_slice p q)"
  "agrees (\<lambda>s. I (snd s)) (disk_store p q bs) (disk_store p q bs)"
  by (auto simp: agrees_def disk_grow_def disk_slice_def disk_store_def)

lemma dma_to_guest_agrees: "agrees I (dma_to_guest wr a bs) (dma_to_guest wr' a bs)"
  by (induction bs arbitrary: a) (auto intro!: agrees_intros wr_agrees)

lemma dma_from_guest_keeps: "keeps I (\<lambda>_. True) (dma_from_guest rd a n)"
  by (induction n arbitrary: a) (auto intro!: keeps_intros rd_keeps)

lemmas dma_agrees = agrees_intros disk_agrees
  agrees_on_snd [OF agrees_refl [OF rd_keeps]] agrees_on_snd [OF wr_agrees]
  agrees_on_snd [OF dma_to_guest_agrees] agrees_on_snd [OF agrees_refl [OF dma_from_guest_keeps]]
  agrees_on_snd [OF agrees_refl [OF chain_loop_keeps]]

lemma block_request_agrees:
  "agrees (\<lambda>s. I (snd s)) (block_request rd wr h d l) (block_request rd wr' h d l)"
  unfolding block_request_def Let_def by (intro dma_agrees)

lemma process_descriptor_chain_agrees:
  "agrees (\<lambda>s. I (snd s)) (process_descriptor_chain rd wr base head) (process_descriptor_chain rd wr' base head)"
  unfolding process_descriptor_chain_def by (intro dma_agrees block_request_agrees)

lemma queue_round_agrees:
  "agrees (\<lambda>s. I (snd s)) (queue_round rd wr d a u lst used) (queue_round rd wr' d a u lst used)"
  unfolding queue_round_def Let_def by (intro dma_agrees process_descriptor_chain_agrees)

lemma queue_loop_agrees:
  "agrees (\<lambda>s. I (snd s)) (queue_loop rd wr d a u avail lst used) (queue_loop rd wr' d a u avail lst used)"
proof (induction "unat (avail - lst)" arbitrary: lst used rule: less_induct)
  case less
  have "unat (avail - (lst + 1)) < unat (avail - lst)" if "lst \<noteq> avail"
    using that unat_minus_one [of "avail - lst"] by (simp add: algebra_simps unat_gt_0)
  then show ?case
    unfolding queue_loop.simps [of rd wr d a u avail lst used] queue_loop.simps [of rd wr' d a u avail lst used]
    by (intro dma_agrees queue_round_agrees less)
qed

lemma serve_queue_agrees:
  "agrees (\<lambda>s. I (snd s)) (serve_queue rd wr q d a u l) (serve_queue rd wr' q d a u l)"
proof -
  have "agrees (\<lambda>s. I (snd s)) (queue_done q i) (queue_done q i)" for i
    by (auto simp: agrees_def queue_done_def modify_def)
  then show ?thesis
    unfolding serve_queue_def Let_def by (intro dma_agrees queue_loop_agrees)
qed

lemma process_queue_agrees:
  "agrees (\<lambda>s. I (snd s)) (process_queue rd wr q) (process_queue rd wr' q)"
  using agrees_both [OF serve_queue_agrees]
  by (intro agreesI) (clarsimp simp: process_queue_def)

lemma virtio_write_agrees:
  "agrees (\<lambda>s. I (snd s)) (virtio_write rd wr a n v) (virtio_write rd wr' a n v)"
  using agrees_both [OF process_queue_agrees]
  by (intro agreesI) (clarsimp simp: virtio_write_def Let_def)

end

section \<open>Copying to and from guest memory\<close>

text \<open>The address arithmetic of the copy loops, for buffers that do not wrap around.\<close>

lemma unat_offset: "unat (a :: u64) + i < 2 ^ 64 \<Longrightarrow> unat (a + of_nat i) = unat a + i"
  by (simp add: unat_word_ariths unat_of_nat)

lemma take_bit_ucast_8: "take_bit 8 (ucast (x :: u8) :: u64) = ucast x"
  by (rule bit_word_eqI) (auto simp: bit_simps dest: bit_imp_le_length)

context byte_memory
begin

definition buffer :: "'m \<Rightarrow> u64 \<Rightarrow> nat \<Rightarrow> bool" where
  "buffer m a n \<longleftrightarrow> unat a + n \<le> 2 ^ 64 \<and> (\<forall>i < n. valid m (a + of_nat i) 1)"

lemma buffer_Suc: "buffer m a (Suc n) \<Longrightarrow> valid m a 1 \<and> buffer m (a + 1) n"
proof -
  assume b: "buffer m a (Suc n)"
  then have "valid m a 1" by (auto simp: buffer_def dest: spec [of _ 0])
  moreover have "valid m (a + 1 + of_nat i) 1" if "i < n" for i
    using b that by (auto simp: buffer_def add.assoc dest!: spec [of _ "Suc i"])
  moreover have "unat (a + 1) + n \<le> 2 ^ 64 \<or> n = 0"
    using b unat_offset [of a 1] by (cases n) (auto simp: buffer_def)
  moreover have "unat (a + 1) < 2 ^ 64" using unsigned_less [of "a + 1"] by simp
  ultimately show ?thesis by (auto simp: buffer_def)
qed

lemma buffer_write: "valid m b k \<Longrightarrow> buffer (snd (mem_write b k v m)) a n = buffer m a n"
  by (simp add: buffer_def write_valid)

text \<open>Reading a buffer gives its bytes and leaves memory alone.\<close>

lemma dma_from_guest_reads:
  "buffer m a n \<Longrightarrow> \<exists>bs. dma_from_guest mem_read a n m = (Inr bs, m) \<and> length bs = n
     \<and> (\<forall>i < n. \<exists>v. mem_read (a + of_nat i) 1 m = (Inr v, m) \<and> bs ! i = ucast v)"
proof (induction n arbitrary: a)
  case (Suc n)
  from buffer_Suc [OF Suc.prems] obtain v where v: "mem_read a 1 m = (Inr v, m)"
    and rest: "buffer m (a + 1) n" using read_returns by blast
  from Suc.IH [OF rest] obtain bs where bs: "dma_from_guest mem_read (a + 1) n m = (Inr bs, m)"
    "length bs = n" "\<forall>i < n. \<exists>v. mem_read (a + 1 + of_nat i) 1 m = (Inr v, m) \<and> bs ! i = ucast v" by blast
  have "\<exists>w. mem_read (a + of_nat i) 1 m = (Inr w, m) \<and> (ucast v # bs) ! i = ucast w" if "i < Suc n" for i
    using that v bs(3) by (cases i) (auto simp: add.assoc)
  with v bs(1,2) show ?case by (auto simp: and_then_def ok_def)
qed (simp add: ok_def)

text \<open>Filling a buffer: every byte lands, everything else stays.\<close>

lemma dma_to_guest_fills:
  "buffer m a (length bs) \<Longrightarrow> \<exists>m'. dma_to_guest mem_write a bs m = (Inr (), m')
     \<and> (\<forall>b k. valid m' b k = valid m b k)
     \<and> (\<forall>i < length bs. fst (mem_read (a + of_nat i) 1 m') = Inr (ucast (bs ! i)))
     \<and> (\<forall>b k. valid m b k \<and> (unat b + unat k \<le> unat a \<or> unat a + length bs \<le> unat b)
          \<longrightarrow> fst (mem_read b k m') = fst (mem_read b k m))"
proof (induction bs arbitrary: a m)
  case (Cons x bs)
  let ?m = "snd (mem_write a 1 (ucast x) m)"
  from buffer_Suc [of m a "length bs"] Cons.prems
  have a: "valid m a 1" and rest: "buffer m (a + 1) (length bs)" by simp_all
  from Cons.IH [of ?m "a + 1"] rest a obtain m' where m': "dma_to_guest mem_write (a + 1) bs ?m = (Inr (), m')"
    "\<forall>b k. valid m' b k = valid ?m b k"
    "\<forall>i < length bs. fst (mem_read (a + 1 + of_nat i) 1 m') = Inr (ucast (bs ! i))"
    "\<And>b k. valid ?m b k \<Longrightarrow> unat b + unat k \<le> unat (a + 1) \<or> unat (a + 1) + length bs \<le> unat b
          \<Longrightarrow> fst (mem_read b k m') = fst (mem_read b k ?m)"
    by (auto simp: buffer_write)
  have lim: "bs = [] \<or> unat (a + 1) = unat a + 1"
    using Cons.prems unat_offset [of a 1] by (cases bs) (auto simp: buffer_def)
  have first: "fst (mem_read a 1 m') = Inr (ucast x)"
  proof (cases "bs = []")
    case True
    then have "m' = ?m" using m'(1) by (simp add: ok_def)
    then show ?thesis using read_same [OF a, of "ucast x"] by (simp add: take_bit_ucast_8)
  next
    case False
    then show ?thesis
      using m'(4) [of a 1] write_valid [OF a] a lim read_same [OF a, of "ucast x"] by (simp add: take_bit_ucast_8)
  qed
  have "fst (mem_read (a + of_nat i) 1 m') = Inr (ucast ((x # bs) ! i))" if "i < Suc (length bs)" for i
    using that first m'(3) by (cases i) (auto simp: add.assoc)
  moreover have "fst (mem_read b k m') = fst (mem_read b k m)"
    if "valid m b k" "unat b + unat k \<le> unat a \<or> unat a + length (x # bs) \<le> unat b" for b k
  proof -
    have "fst (mem_read b k m') = fst (mem_read b k ?m)"
    proof (cases "bs = []")
      case False
      then show ?thesis using m'(4) [of b k] that lim write_valid [OF a] by auto
    qed (use m'(1) in \<open>simp add: ok_def\<close>)
    also have "\<dots> = fst (mem_read b k m)" using read_other [OF a that(1)] that(2) by auto
    finally show ?thesis .
  qed
  moreover have "dma_to_guest mem_write a (x # bs) m = (Inr (), m')"
    by (simp add: and_then_Inr [where m = "mem_write a 1 (ucast x)", OF write_eq [OF a]] m'(1))
  ultimately show ?case using m'(2) write_valid [OF a] by (intro exI [of _ m']) simp
qed (simp add: ok_def)

end

section \<open>Block requests\<close>

text \<open>The disk as an infinite string of bytes that is zero past its end, which is what growing it
  on demand presents to the guest.\<close>

definition disk_byte :: "virtio_blk \<Rightarrow> nat \<Rightarrow> u8" where
  "disk_byte v k = (if k < length (disk v) then disk v ! k else 0)"

lemma disk_grow_returns:
  assumes "e < 2 ^ 63"
  shows "\<exists>v'. disk_grow e (v, m) = (Inr (), (v', m)) \<and> e \<le> length (disk v')
    \<and> (\<forall>k. disk_byte v' k = disk_byte v k) \<and> v'\<lparr>disk := disk v\<rparr> = v"
proof (cases "length (disk v) < e")
  case True
  then show ?thesis
    using assms by (intro exI [of _ "v\<lparr>disk := disk v @ replicate (e - length (disk v)) 0\<rparr>"])
      (auto simp: disk_grow_def disk_byte_def nth_append)
qed (simp add: disk_grow_def)

lemma disk_slice_returns:
  assumes "p + n \<le> length (disk v)"
  shows "\<exists>bs. disk_slice p (p + n) (v, m) = (Inr bs, (v, m)) \<and> length bs = n
    \<and> (\<forall>i < n. bs ! i = disk_byte v (p + i))"
  using assms by (auto simp: disk_slice_def disk_byte_def)

lemma disk_store_returns:
  assumes "p + length bs \<le> length (disk v)"
  shows "\<exists>v'. disk_store p (p + length bs) bs (v, m) = (Inr (), (v', m))
    \<and> (\<forall>k. disk_byte v' k = (if p \<le> k \<and> k < p + length bs then bs ! (k - p) else disk_byte v k))
    \<and> v'\<lparr>disk := disk v\<rparr> = v"
proof -
  let ?d = "take p (disk v) @ bs @ drop (p + length bs) (disk v)"
  have "disk_byte (v\<lparr>disk := ?d\<rparr>) k
      = (if p \<le> k \<and> k < p + length bs then bs ! (k - p) else disk_byte v k)" for k
    using assms by (auto simp: disk_byte_def nth_append)
  then show ?thesis using assms by (auto simp: disk_store_def)
qed

lemma unat_sector_end:
  assumes "unat (s :: u64) * 512 + unat (len :: u32) < 2 ^ 63"
  shows "unat (s * SECTOR_SIZE) = unat s * 512"
    "unat (s * SECTOR_SIZE + ucast len) = unat s * 512 + unat len"
proof -
  show *: "unat (s * SECTOR_SIZE) = unat s * 512" using assms by (simp add: unat_word_ariths)
  have "unat len < 2 ^ 64" using unsigned_less [of len, where ?'a = nat] by simp
  then have "unat (ucast len :: u64) = unat len" by (simp add: unsigned_ucast_eq take_bit_nat_eq_self)
  with * assms show "unat (s * SECTOR_SIZE + ucast len) = unat s * 512 + unat len"
    by (simp add: unat_word_ariths)
qed

context byte_memory
begin

text \<open>A request header in memory: its type and sector can be read.\<close>

definition header :: "'m \<Rightarrow> u64 \<Rightarrow> u32 \<Rightarrow> u64 \<Rightarrow> bool" where
  "header m h t s \<longleftrightarrow> (\<exists>x. mem_read h 4 m = (Inr x, m) \<and> ucast x = t) \<and> mem_read (h + 8) 8 m = (Inr s, m)"

lemma block_read_copies:
  assumes "header m h VIRTIO_BLK_T_IN s" "unat s * 512 + unat len < 2 ^ 63" "buffer m d (unat len)"
  shows "\<exists>v' m'. block_request mem_read mem_write h d len (v, m) = (Inr (), (v', m'))
    \<and> (\<forall>k. disk_byte v' k = disk_byte v k) \<and> v'\<lparr>disk := disk v\<rparr> = v
    \<and> (\<forall>b k. valid m' b k = valid m b k)
    \<and> (\<forall>i < unat len. fst (mem_read (d + of_nat i) 1 m') = Inr (ucast (disk_byte v (unat s * 512 + i))))
    \<and> (\<forall>b k. valid m b k \<and> (unat b + unat k \<le> unat d \<or> unat d + unat len \<le> unat b)
         \<longrightarrow> fst (mem_read b k m') = fst (mem_read b k m))"
proof -
  note U = unat_sector_end [OF assms(2)]
  obtain v' where v': "disk_grow (unat s * 512 + unat len) (v, m) = (Inr (), (v', m))"
    "unat s * 512 + unat len \<le> length (disk v')" "\<forall>k. disk_byte v' k = disk_byte v k" "v'\<lparr>disk := disk v\<rparr> = v"
    using disk_grow_returns [OF assms(2), of v m] by blast
  obtain bs where bs: "disk_slice (unat s * 512) (unat s * 512 + unat len) (v', m) = (Inr bs, (v', m))"
    "length bs = unat len" "\<forall>i < unat len. bs ! i = disk_byte v (unat s * 512 + i)"
    using disk_slice_returns [OF v'(2), of m] v'(3) by auto
  obtain m' where m': "dma_to_guest mem_write d bs m = (Inr (), m')" "\<forall>b k. valid m' b k = valid m b k"
    "\<forall>i < unat len. fst (mem_read (d + of_nat i) 1 m') = Inr (ucast (bs ! i))"
    "\<forall>b k. valid m b k \<and> (unat b + unat k \<le> unat d \<or> unat d + unat len \<le> unat b)
         \<longrightarrow> fst (mem_read b k m') = fst (mem_read b k m)"
    using dma_to_guest_fills [of m d bs] assms(3) bs(2) by auto
  obtain x where "mem_read h 4 m = (Inr x, m)" "ucast x = VIRTIO_BLK_T_IN" "mem_read (h + 8) 8 m = (Inr s, m)"
    using assms(1) unfolding header_def by blast
  then have "block_request mem_read mem_write h d len (v, m) = (Inr (), (v', m'))"
    using v'(1) bs(1) m'(1) by (simp add: block_request_def and_then_def on_snd_def U Let_def)
  then show ?thesis using v'(3,4) bs(3) m'(2-4) by metis
qed

lemma block_write_stores:
  assumes "header m h VIRTIO_BLK_T_OUT s" "unat s * 512 + unat len < 2 ^ 63" "buffer m d (unat len)"
  shows "\<exists>v'. block_request mem_read mem_write h d len (v, m) = (Inr (), (v', m))
    \<and> v'\<lparr>disk := disk v\<rparr> = v
    \<and> (\<forall>i < unat len. \<exists>x. mem_read (d + of_nat i) 1 m = (Inr x, m)
         \<and> disk_byte v' (unat s * 512 + i) = ucast x)
    \<and> (\<forall>k. k < unat s * 512 \<or> unat s * 512 + unat len \<le> k \<longrightarrow> disk_byte v' k = disk_byte v k)"
proof -
  note U = unat_sector_end [OF assms(2)]
  obtain bs where bs: "dma_from_guest mem_read d (unat len) m = (Inr bs, m)" "length bs = unat len"
    "\<forall>i < unat len. \<exists>x. mem_read (d + of_nat i) 1 m = (Inr x, m) \<and> bs ! i = ucast x"
    using dma_from_guest_reads [OF assms(3)] by blast
  obtain v1 where v1: "disk_grow (unat s * 512 + unat len) (v, m) = (Inr (), (v1, m))"
    "unat s * 512 + unat len \<le> length (disk v1)" "\<forall>k. disk_byte v1 k = disk_byte v k" "v1\<lparr>disk := disk v\<rparr> = v"
    using disk_grow_returns [OF assms(2), of v m] by blast
  obtain v' where v': "disk_store (unat s * 512) (unat s * 512 + unat len) bs (v1, m) = (Inr (), (v', m))"
    "\<forall>k. disk_byte v' k = (if unat s * 512 \<le> k \<and> k < unat s * 512 + unat len then bs ! (k - unat s * 512)
       else disk_byte v k)" "v'\<lparr>disk := disk v1\<rparr> = v1"
    using disk_store_returns [of "unat s * 512" bs v1 m] v1(2,3) by (auto simp: bs(2))
  have "v'\<lparr>disk := disk v\<rparr> = (v'\<lparr>disk := disk v1\<rparr>)\<lparr>disk := disk v\<rparr>" by simp
  also have "\<dots> = v" using v'(3) v1(4) by simp
  finally have same: "v'\<lparr>disk := disk v\<rparr> = v" .
  obtain x where "mem_read h 4 m = (Inr x, m)" "ucast x = VIRTIO_BLK_T_OUT" "mem_read (h + 8) 8 m = (Inr s, m)"
    using assms(1) unfolding header_def by blast
  then have "block_request mem_read mem_write h d len (v, m) = (Inr (), (v', m))"
    using v'(1) bs(1) v1(1) by (simp add: block_request_def and_then_def on_snd_def U Let_def)
  moreover have "\<forall>i < unat len. disk_byte v' (unat s * 512 + i) = bs ! i"
    "\<forall>k. k < unat s * 512 \<or> unat s * 512 + unat len \<le> k \<longrightarrow> disk_byte v' k = disk_byte v k"
    using v'(2) by auto
  ultimately show ?thesis using same bs(3) by metis
qed

text \<open>A sector written and read back is copied from one buffer to the other.\<close>

lemma block_write_read:
  assumes "header m h VIRTIO_BLK_T_OUT s" "header m h' VIRTIO_BLK_T_IN s"
    "unat s * 512 + unat len < 2 ^ 63" "buffer m d (unat len)" "buffer m d' (unat len)"
  shows "\<exists>v' m'. and_then (block_request mem_read mem_write h d len)
        (\<lambda>_. block_request mem_read mem_write h' d' len) (v, m) = (Inr (), (v', m'))
    \<and> (\<forall>i < unat len. fst (mem_read (d' + of_nat i) 1 m')
         = Inr (ucast (ucast (projr (fst (mem_read (d + of_nat i) 1 m))) :: u8)))"
proof -
  obtain v1 where v1: "block_request mem_read mem_write h d len (v, m) = (Inr (), (v1, m))"
    "\<forall>i < unat len. \<exists>x. mem_read (d + of_nat i) 1 m = (Inr x, m)
         \<and> disk_byte v1 (unat s * 512 + i) = ucast x"
    using block_write_stores [OF assms(1,3,4)] by blast
  obtain v' m' where "block_request mem_read mem_write h' d' len (v1, m) = (Inr (), (v', m'))"
    "\<forall>i < unat len. fst (mem_read (d' + of_nat i) 1 m') = Inr (ucast (disk_byte v1 (unat s * 512 + i)))"
    using block_read_copies [OF assms(2,3,5)] by blast
  with v1 show ?thesis by (intro exI [of _ v'] exI [of _ m']) (fastforce simp: and_then_def)
qed

end

end
