(* ===== verification/Range_Manager.thy ===== *)
theory Range_Manager
  imports Prelude
begin

text \<open>
  \<open>Range\<close> and \<open>RangeManager\<close> of \<^verbatim>\<open>bus.rs\<close>: address ranges with their containment test and
  the sorted list of reserved ranges with its add-time validation and its lookup.
\<close>

record range =
  range_start :: u64
  range_size :: u64

definition range_none :: range where
  "range_none = \<lparr>range_start = 0, range_size = 0\<rparr>"

definition contains :: "range \<Rightarrow> u64 \<Rightarrow> u64 \<Rightarrow> bool" where
  "contains r address sz =
     (case checked_add address sz of
        Some e \<Rightarrow> range_start r \<le> address \<and> e \<le> range_start r + range_size r
      | None \<Rightarrow> False)"

record range_manager =
  starts :: "u64 list"
  sizes :: "u64 list"

definition range_manager_new :: range_manager where
  "range_manager_new = \<lparr>starts = [], sizes = []\<rparr>"

text \<open>
  \<open>partition_point\<close> of the standard library: the number of leading elements satisfying the
  predicate, for a slice in which all of those come first (as a sorted one has for an upper
  bound).
\<close>

definition partition_point :: "('a \<Rightarrow> bool) \<Rightarrow> 'a list \<Rightarrow> nat" where
  "partition_point P xs = length (takeWhile P xs)"

definition vec_insert :: "nat \<Rightarrow> 'a \<Rightarrow> 'a list \<Rightarrow> 'a list" where
  "vec_insert i x xs = take i xs @ x # drop i xs"

definition describe :: "range_manager \<Rightarrow> (u64 \<times> u64) list" where
  "describe m = map (\<lambda>(s, sz). (s, s + sz)) (zip (starts m) (sizes m))"

definition add_range :: "range \<Rightarrow> (range_manager, nat) op" where
  "add_range r = (\<lambda>m.
     if range_size r = 0 then (error (Invalid_range (range_start r) (range_size r)), m)
     else if checked_add (range_start r) (range_size r) = None then
       (error (Overflow_range (range_start r) (range_size r)), m)
     else
       (let position = partition_point (\<lambda>s. s < range_start r) (starts m);
            no_fit = error (Cannot_fit (range_start r) (range_size r) (describe m))
        in
        if position = length (starts m) then
          (if position > 0
              \<and> starts m ! (position - 1) + sizes m ! (position - 1) > range_start r
           then (no_fit, m)
           else (Inr position,
                 \<lparr>starts = starts m @ [range_start r], sizes = sizes m @ [range_size r]\<rparr>))
        else if starts m ! position = range_start r then (no_fit, m)
        else if range_start r + range_size r > starts m ! position then (no_fit, m)
        else (Inr position,
              \<lparr>starts = vec_insert position (range_start r) (starts m),
               sizes = vec_insert position (range_size r) (sizes m)\<rparr>)))"

definition get_range :: "range_manager \<Rightarrow> u64 \<Rightarrow> u64 \<Rightarrow> (nat \<times> range) res" where
  "get_range m address sz =
     (if sz = 0 then error (Invalid_range address sz)
      else if checked_add address sz = None then error (Overflow_range address sz)
      else
        (let position = partition_point (\<lambda>s. s \<le> address) (starts m) in
         if position = 0 then error No_device_mapped
         else
           (let idx = position - 1;
                target_start = starts m ! idx;
                target_size = sizes m ! idx
            in if address + sz \<le> target_start + target_size
               then Inr (idx, \<lparr>range_start = target_start, range_size = target_size\<rparr>)
               else error (No_device_covers address (address + sz)))))"

section \<open>Reserved ranges\<close>

text \<open>
  The ranges of a manager as pairs of start and size, in the order of their starts. \<open>rm_wf\<close> is
  what every manager the code builds satisfies; \<open>rm_disjoint\<close> is what the reservation means to
  establish.
\<close>

definition entries :: "range_manager \<Rightarrow> (u64 \<times> u64) list" where
  "entries m = zip (starts m) (sizes m)"

definition entry_end :: "u64 \<times> u64 \<Rightarrow> nat" where
  "entry_end e = unat (fst e) + unat (snd e)"

definition rm_wf :: "range_manager \<Rightarrow> bool" where
  "rm_wf m \<longleftrightarrow> length (sizes m) = length (starts m) \<and> sorted_wrt (<) (starts m)
     \<and> list_all (\<lambda>e. snd e \<noteq> 0 \<and> entry_end e < 2 ^ 64) (entries m)"

definition rm_disjoint :: "range_manager \<Rightarrow> bool" where
  "rm_disjoint m \<longleftrightarrow> sorted_wrt (\<lambda>e f. entry_end e \<le> unat (fst f)) (entries m)"

lemma partition_point_le: "partition_point P xs \<le> length xs"
  by (simp add: partition_point_def length_takeWhile_le)

lemma partition_point_true: "i < partition_point P xs \<Longrightarrow> P (xs ! i)"
  unfolding partition_point_def by (metis nth_mem set_takeWhileD takeWhile_nth)

lemma partition_point_false: "partition_point P xs < length xs \<Longrightarrow> \<not> P (xs ! partition_point P xs)"
  unfolding partition_point_def by (rule nth_length_takeWhile)

lemma length_entries: "rm_wf m \<Longrightarrow> length (entries m) = length (starts m)"
  by (simp add: rm_wf_def entries_def)

lemma nth_entries: "rm_wf m \<Longrightarrow> i < length (starts m) \<Longrightarrow> entries m ! i = (starts m ! i, sizes m ! i)"
  by (simp add: rm_wf_def entries_def)

lemma rm_wf_new [simp]: "rm_wf range_manager_new" "rm_disjoint range_manager_new"
  by (simp_all add: rm_wf_def rm_disjoint_def range_manager_new_def entries_def)

lemma zip_vec_insert:
  "length xs = length ys \<Longrightarrow> i \<le> length xs
     \<Longrightarrow> zip (vec_insert i x xs) (vec_insert i y ys) = take i (zip xs ys) @ (x, y) # drop i (zip xs ys)"
  by (simp add: vec_insert_def zip_append take_zip drop_zip)



lemma checked_add_eq_None: "checked_add a b = None \<longleftrightarrow> 2 ^ 64 \<le> unat a + unat b"
  by (auto simp: checked_add_def)

lemma unat_add_no_wrap: "unat (a :: u64) + unat b < 2 ^ 64 \<Longrightarrow> unat (a + b) = unat a + unat b"
  by (simp add: unat_word_ariths)

text \<open>Where a successful reservation lands: the starts below it come before it.\<close>

lemma add_range_Inr:
  assumes "rm_wf m" and "add_range r m = (Inr i, m')"
  shows "i = partition_point (\<lambda>s. s < range_start r) (starts m)"
    and "range_size r \<noteq> 0" "entry_end (range_start r, range_size r) < 2 ^ 64"
    and "m' = \<lparr>starts = vec_insert i (range_start r) (starts m),
               sizes = vec_insert i (range_size r) (sizes m)\<rparr>"
    and "i < length (starts m) \<longrightarrow> entry_end (range_start r, range_size r) \<le> unat (starts m ! i)"
  using assms
  by (auto simp: add_range_def Let_def error_def checked_add_eq_None not_le vec_insert_def rm_wf_def
      not_less word_le_nat_alt unat_add_no_wrap entry_end_def split: if_splits)

lemma sorted_insert_at:
  assumes "sorted_wrt R xs" "\<forall>x \<in> set (take i xs). R x y" "\<forall>x \<in> set (drop i xs). R y x"
  shows "sorted_wrt R (take i xs @ y # drop i xs)"
proof -
  have "sorted_wrt R (take i xs @ drop i xs)" using assms(1) by simp
  then show ?thesis using assms(2,3) unfolding sorted_wrt_append by auto
qed

lemma sorted_insert_atD:
  assumes "sorted_wrt R (take i xs @ y # drop i xs)"
  shows "sorted_wrt R xs" "\<forall>x \<in> set (take i xs). R x y" "\<forall>x \<in> set (drop i xs). R y x"
proof -
  from assms have "sorted_wrt R (take i xs @ drop i xs)" unfolding sorted_wrt_append by auto
  then show "sorted_wrt R xs" by simp
qed (use assms in \<open>auto simp: sorted_wrt_append\<close>)

lemma add_range_position:
  assumes wf: "rm_wf m" and add: "add_range r m = (Inr i, m')"
  shows "i \<le> length (starts m)"
    and "\<forall>s \<in> set (take i (starts m)). s < range_start r"
    and "\<forall>s \<in> set (drop i (starts m)). entry_end (range_start r, range_size r) \<le> unat s"
proof -
  note A = add_range_Inr [OF wf add]
  show i: "i \<le> length (starts m)" using A(1) partition_point_le by blast
  show "\<forall>s \<in> set (take i (starts m)). s < range_start r"
    using A(1) partition_point_true [of _ "\<lambda>s. s < range_start r" "starts m"]
    by (auto simp: in_set_conv_nth)
  show "\<forall>s \<in> set (drop i (starts m)). entry_end (range_start r, range_size r) \<le> unat s"
  proof
    fix s assume "s \<in> set (drop i (starts m))"
    then obtain k where k: "k < length (starts m) - i" "s = starts m ! (i + k)"
      by (auto simp: in_set_conv_nth)
    then have "starts m ! i \<le> s"
      using wf by (cases k) (auto simp: rm_wf_def dest: sorted_wrt_nth_less [of _ _ i "i + k"])
    moreover from k(1) have "i < length (starts m)" by simp
    ultimately show "entry_end (range_start r, range_size r) \<le> unat s"
      using A(5) unfolding word_le_nat_alt by linarith
  qed
qed

lemma add_range_entries:
  assumes wf: "rm_wf m" and add: "add_range r m = (Inr i, m')"
  shows "entries m' = take i (entries m) @ (range_start r, range_size r) # drop i (entries m)"
  using add_range_Inr(4) [OF assms] add_range_position(1) [OF assms] wf
  by (simp add: entries_def zip_vec_insert rm_wf_def)

lemma add_range_wf:
  assumes wf: "rm_wf m" and add: "add_range r m = (Inr i, m')"
  shows "rm_wf m'"
proof -
  note A = add_range_Inr [OF wf add] and P = add_range_position [OF wf add]
  have "\<forall>s \<in> set (drop i (starts m)). range_start r < s"
    using P(3) A(2) by (fastforce simp: entry_end_def word_less_nat_alt simp flip: unat_gt_0)
  then have "sorted_wrt (<) (starts m')"
    using wf P(2) A(4) by (simp add: vec_insert_def rm_wf_def sorted_insert_at)
  moreover have "list_all (\<lambda>e. snd e \<noteq> 0 \<and> entry_end e < 2 ^ 64) (entries m')"
    using wf A(2,3) unfolding add_range_entries [OF wf add] rm_wf_def
    by (auto simp: list_all_iff dest: in_set_takeD in_set_dropD)
  ultimately show ?thesis using wf A(4) by (simp add: rm_wf_def vec_insert_def)
qed

text \<open>The new range is clear of everything but possibly its left neighbours.\<close>

lemma add_range_disjoint:
  assumes wf: "rm_wf m" and add: "add_range r m = (Inr i, m')"
  shows "rm_disjoint m' \<longleftrightarrow> rm_disjoint m
    \<and> (\<forall>e \<in> set (take i (entries m)). entry_end e \<le> unat (range_start r))"
proof -
  have "\<forall>f \<in> set (drop i (entries m)). entry_end (range_start r, range_size r) \<le> unat (fst f)"
    using add_range_position(3) [OF assms] by (auto simp: entries_def drop_zip dest: set_zip_leftD)
  then show ?thesis
    unfolding rm_disjoint_def add_range_entries [OF assms]
    by (auto simp: sorted_insert_at dest: sorted_insert_atD)
qed

text \<open>The left neighbour is the only one that matters when the ranges are disjoint already.\<close>

lemma left_neighbour_suffices:
  assumes dis: "rm_disjoint m" and i: "0 < i" "i \<le> length (entries m)"
    and left: "entry_end (entries m ! (i - 1)) \<le> unat s"
  shows "\<forall>e \<in> set (take i (entries m)). entry_end e \<le> unat s"
proof
  fix e assume "e \<in> set (take i (entries m))"
  then obtain k where k: "k < i" "e = entries m ! k" using i(2) by (auto simp: in_set_conv_nth)
  show "entry_end e \<le> unat s"
  proof (cases "k = i - 1")
    case False
    then have "entry_end e \<le> unat (fst (entries m ! (i - 1)))"
      using dis k i by (auto simp: rm_disjoint_def dest: sorted_wrt_nth_less [of _ _ k "i - 1"])
    also have "\<dots> \<le> entry_end (entries m ! (i - 1))" by (simp add: entry_end_def)
    finally show ?thesis using left by linarith
  qed (use k left in simp)
qed

lemma add_range_append:
  assumes wf: "rm_wf m" and add: "add_range r m = (Inr i, m')" and i: "i = length (starts m)" "i \<noteq> 0"
  shows "entry_end (entries m ! (i - 1)) \<le> unat (range_start r)"
proof -
  note A = add_range_Inr [OF wf add]
  have "entry_end (entries m ! (i - 1)) < 2 ^ 64"
    using wf i by (simp add: rm_wf_def list_all_length entries_def)
  then have fits: "unat (starts m ! (i - 1)) + unat (sizes m ! (i - 1)) < 2 ^ 64"
    using i by (simp add: nth_entries [OF wf] entry_end_def)
  have "starts m ! (i - 1) + sizes m ! (i - 1) \<le> range_start r"
    using add i A(1) [symmetric] by (simp add: add_range_def Let_def error_def not_less split: if_splits)
  then show ?thesis
    using i unat_add_no_wrap [OF fits] by (simp add: nth_entries [OF wf] entry_end_def word_le_nat_alt)
qed

text \<open>
  C23: reserving a range. A reservation that succeeds puts the range at its place among the
  sorted starts, keeps the manager well formed, and leaves the ranges disjoint exactly when they
  were disjoint before and the left neighbour of the new range ends at or before its start. (The
  right neighbour is checked by the code in every case, the left one only when the range is
  appended.) A reservation that fails changes nothing.
\<close>

theorem add_range_reserves:
  assumes "rm_wf m"
  shows "(\<forall>i m'. add_range r m = (Inr i, m') \<longrightarrow>
           rm_wf m' \<and> i \<le> length (entries m)
           \<and> entries m' = take i (entries m) @ (range_start r, range_size r) # drop i (entries m)
           \<and> (rm_disjoint m' \<longleftrightarrow> rm_disjoint m
                \<and> (i \<noteq> 0 \<longrightarrow> entry_end (entries m ! (i - 1)) \<le> unat (range_start r)))
           \<and> (i = length (entries m) \<and> rm_disjoint m \<longrightarrow> rm_disjoint m'))
         \<and> (\<forall>e m'. add_range r m = (Inl e, m') \<longrightarrow> m' = m)"
proof (intro conjI allI impI)
  fix i m' assume add: "add_range r m = (Inr i, m')"
  note A = add_range_Inr [OF assms add] and E = add_range_entries [OF assms add]
  show "rm_wf m'" by (rule add_range_wf [OF assms add])
  show le: "i \<le> length (entries m)"
    using add_range_position(1) [OF assms add] by (simp add: length_entries [OF assms])
  show "entries m' = take i (entries m) @ (range_start r, range_size r) # drop i (entries m)"
    by (rule E)
  show iff: "rm_disjoint m' \<longleftrightarrow> rm_disjoint m
      \<and> (i \<noteq> 0 \<longrightarrow> entry_end (entries m ! (i - 1)) \<le> unat (range_start r))"
    using add_range_disjoint [OF assms add] left_neighbour_suffices [of m i "range_start r"] le
    by (cases "i = 0") (auto simp: all_set_conv_all_nth)
  assume "i = length (entries m) \<and> rm_disjoint m"
  with add_range_append [OF assms add] iff show "rm_disjoint m'"
    by (auto simp: length_entries [OF assms])
next
  fix e m' assume "add_range r m = (Inl e, m')"
  then show "m' = m" by (auto simp: add_range_def Let_def split: if_splits)
qed

theorem add_range_reserves_witness:
  "rm_wf \<lparr>starts = [0x1000, 0x9000], sizes = [0x1000, 0x1000]\<rparr>
   \<and> add_range \<lparr>range_start = 0x2000, range_size = 0x1000\<rparr>
       \<lparr>starts = [0x1000, 0x9000], sizes = [0x1000, 0x1000]\<rparr>
     = (Inr 1, \<lparr>starts = [0x1000, 0x2000, 0x9000], sizes = [0x1000, 0x1000, 0x1000]\<rparr>)
   \<and> rm_disjoint \<lparr>starts = [0x1000, 0x2000, 0x9000], sizes = [0x1000, 0x1000, 0x1000]\<rparr>"
proof -
  let ?m = "\<lparr>starts = [0x1000, 0x9000], sizes = [0x1000, 0x1000]\<rparr>"
  let ?r = "\<lparr>range_start = 0x2000, range_size = 0x1000\<rparr>"
  have wf: "rm_wf ?m" and dis: "rm_disjoint ?m"
    by (simp_all add: rm_wf_def rm_disjoint_def entries_def entry_end_def)
  have add: "add_range ?r ?m
      = (Inr 1, \<lparr>starts = [0x1000, 0x2000, 0x9000], sizes = [0x1000, 0x1000, 0x1000]\<rparr>)"
    by (simp add: add_range_def checked_add_def partition_point_def vec_insert_def)
  show ?thesis
    using add_range_reserves [OF wf, of ?r] add dis wf by (simp add: entries_def entry_end_def)
qed

section \<open>Lookup\<close>

text \<open>The range an access falls in, if any: the specification of the lookup.\<close>

definition covers :: "u64 \<times> u64 \<Rightarrow> u64 \<Rightarrow> u64 \<Rightarrow> bool" where
  "covers e a n \<longleftrightarrow> unat (fst e) \<le> unat a \<and> unat a + unat n \<le> entry_end e"

lemma contains_covers:
  assumes "entry_end (range_start r, range_size r) < 2 ^ 64"
  shows "contains r a n \<longleftrightarrow> covers (range_start r, range_size r) a n"
proof -
  have e: "unat (range_start r + range_size r) = entry_end (range_start r, range_size r)"
    using assms by (simp add: entry_end_def unat_add_no_wrap)
  show ?thesis
    using assms
    by (auto simp: contains_def covers_def checked_add_def word_le_nat_alt e unat_add_no_wrap
        split: option.splits if_splits)
qed

lemma covers_unique:
  assumes "rm_disjoint m" "i < length (entries m)" "j < length (entries m)" "0 < unat n"
    and "covers (entries m ! i) a n" "covers (entries m ! j) a n"
  shows "i = j"
proof (rule ccontr)
  have *: "\<not> i < j" if "i < j" "j < length (entries m)" "covers (entries m ! i) a n"
    "covers (entries m ! j) a n" for i j
    using assms(1,4) that by (auto simp: rm_disjoint_def covers_def dest: sorted_wrt_nth_less [of _ _ i j])
  assume "i \<noteq> j"
  then show False using * assms by (metis linorder_neqE_nat)
qed

lemma get_range_Inr:
  assumes wf: "rm_wf m" and n: "n \<noteq> 0"
    and get: "get_range m a n = Inr (i, r)"
  shows "i < length (entries m)" "entries m ! i = (range_start r, range_size r)"
    "covers (entries m ! i) a n" "unat a + unat n < 2 ^ 64"
proof -
  let ?p = "partition_point (\<lambda>s. s \<le> a) (starts m)"
  from get have p: "?p \<noteq> 0" "i = ?p - 1" and fits: "unat a + unat n < 2 ^ 64"
    and r: "r = \<lparr>range_start = starts m ! i, range_size = sizes m ! i\<rparr>"
    and le: "a + n \<le> starts m ! i + sizes m ! i"
    by (auto simp: get_range_def Let_def error_def checked_add_eq_None split: if_splits)
  then have i: "i < length (starts m)" "starts m ! i \<le> a"
    using partition_point_le [of "\<lambda>s. s \<le> a" "starts m"]
      partition_point_true [of i "\<lambda>s. s \<le> a" "starts m"] by auto
  then have "entry_end (entries m ! i) < 2 ^ 64"
    using wf by (simp add: rm_wf_def list_all_length entries_def)
  then show "covers (entries m ! i) a n"
    using le i fits
    by (simp add: nth_entries [OF wf] covers_def entry_end_def word_le_nat_alt unat_add_no_wrap)
  show "i < length (entries m)" "entries m ! i = (range_start r, range_size r)" "unat a + unat n < 2 ^ 64"
    using i r fits by (simp_all add: length_entries [OF wf] nth_entries [OF wf])
qed

text \<open>A covered access is found: its range is the last one that starts at or below it.\<close>

lemma get_range_covered:
  assumes wf: "rm_wf m" and dis: "rm_disjoint m" and n: "n \<noteq> 0" and i: "i < length (entries m)"
    and cov: "covers (entries m ! i) a n"
  shows "get_range m a n = Inr (i, \<lparr>range_start = starts m ! i, range_size = sizes m ! i\<rparr>)"
proof -
  let ?p = "partition_point (\<lambda>s. s \<le> a) (starts m)"
  have e: "entries m ! i = (starts m ! i, sizes m ! i)" and i': "i < length (starts m)"
    using i wf by (simp_all add: nth_entries length_entries)
  have "entry_end (entries m ! i) < 2 ^ 64"
    using wf i by (simp add: rm_wf_def list_all_length)
  then have fits: "unat a + unat n < 2 ^ 64"
    and le: "starts m ! i \<le> a" "a + n \<le> starts m ! i + sizes m ! i"
    using cov e by (simp_all add: covers_def entry_end_def word_le_nat_alt unat_add_no_wrap)
  have "\<forall>k \<le> i. starts m ! k \<le> a"
    using wf le(1) i' by (auto simp: rm_wf_def le_less dest!: sorted_wrt_nth_less [of "(<)" "starts m" _ i])
  then have "\<not> ?p \<le> i" using partition_point_false [of "\<lambda>s. s \<le> a" "starts m"] i' by force
  moreover have "\<not> Suc i < ?p"
  proof
    assume lt: "Suc i < ?p"
    then have "Suc i < length (starts m)" "starts m ! Suc i \<le> a"
      using partition_point_le [of "\<lambda>s. s \<le> a" "starts m"]
        partition_point_true [of "Suc i" "\<lambda>s. s \<le> a" "starts m"] by auto
    then have "entry_end (entries m ! i) \<le> unat a"
      using dis wf sorted_wrt_nth_less [of _ "entries m" i "Suc i"]
      by (fastforce simp: rm_disjoint_def length_entries nth_entries word_le_nat_alt)
    then show False using cov n by (simp add: covers_def unat_eq_zero flip: unat_gt_0)
  qed
  ultimately have "?p = Suc i" by linarith
  then show ?thesis using n fits le by (simp add: get_range_def checked_add_eq_None Let_def)
qed

text \<open>
  C22: lookup. On a well-formed manager with disjoint ranges, looking up a non-empty access
  succeeds exactly when some reserved range covers it without wrapping, and then gives that
  range and its index.
\<close>

theorem get_range_correct:
  assumes "rm_wf m" "rm_disjoint m" "n \<noteq> 0"
  shows "get_range m a n = Inr (i, r) \<longleftrightarrow>
    i < length (entries m) \<and> entries m ! i = (range_start r, range_size r)
    \<and> covers (entries m ! i) a n"
proof
  assume "get_range m a n = Inr (i, r)"
  then show "i < length (entries m) \<and> entries m ! i = (range_start r, range_size r)
    \<and> covers (entries m ! i) a n"
    using get_range_Inr [OF assms(1,3)] by blast
next
  assume *: "i < length (entries m) \<and> entries m ! i = (range_start r, range_size r)
    \<and> covers (entries m ! i) a n"
  then have "starts m ! i = range_start r" "sizes m ! i = range_size r"
    using nth_entries [OF assms(1), of i] length_entries [OF assms(1)] by auto
  then show "get_range m a n = Inr (i, r)"
    using get_range_covered [OF assms, of i a] * by (cases r) auto
qed

theorem get_range_correct_witness:
  "get_range \<lparr>starts = [0x1000, 0x2000], sizes = [0x1000, 0x800]\<rparr> 0x27fc 4
     = Inr (1, \<lparr>range_start = 0x2000, range_size = 0x800\<rparr>)"
  using get_range_correct [of "\<lparr>starts = [0x1000, 0x2000], sizes = [0x1000, 0x800]\<rparr>" 4 "0x27fc" 1
      "\<lparr>range_start = 0x2000, range_size = 0x800\<rparr>"]
  by (simp add: rm_wf_def rm_disjoint_def entries_def entry_end_def covers_def)

end
