(* ===== verification/Bus.thy ===== *)
theory Bus
  imports Ram Clint Uart Plic Virtio Range_Manager
begin

text \<open>
  The bus of \<^verbatim>\<open>bus.rs\<close>: three owned memories and four devices behind \<open>Rc<RefCell<_>>\<close>.

  The shared cells live in a store, \<open>heap\<close>, kept beside the bus fields; an \<open>Rc\<close> is an address
  of the store, so the handle a hart holds and the handle the bus holds alias exactly when they
  are equal. Only the VirtIO cell can be asked for while it is mutably borrowed (its DMA goes
  through the bus that dispatched to it), so its \<open>RefCell\<close> state is explicit: \<open>borrow_mut\<close>
  takes the content out until the guard is dropped, and any borrow in between is a panic.
\<close>

datatype 'a refcell = Available 'a | Borrowed_mut

record heap =
  clints :: "nat \<Rightarrow> clint"
  uarts :: "nat \<Rightarrow> uart"
  plics :: "nat \<Rightarrow> plic"
  virtios :: "nat \<Rightarrow> virtio_blk refcell"

record bus =
  ranges :: range_manager
  bus_ram :: ram
  ram_range :: range
  bus_stack :: ram
  stack_range :: range
  bus_bootloader :: ram
  bootloader_range :: range
  bus_clint :: "nat option"
  clint_range :: range
  bus_uart :: "nat option"
  uart_range :: range
  bus_plic :: "nat option"
  plic_range :: range
  bus_virtio :: "nat option"
  virtio_range :: range
  heap :: heap

definition bus_new :: "heap \<Rightarrow> bus" where
  "bus_new h =
     \<lparr>ranges = range_manager_new,
      bus_ram = ram_new 0, ram_range = range_none,
      bus_stack = ram_new 0, stack_range = range_none,
      bus_bootloader = ram_new 0, bootloader_range = range_none,
      bus_clint = None, clint_range = range_none,
      bus_uart = None, uart_range = range_none,
      bus_plic = None, plic_range = range_none,
      bus_virtio = None, virtio_range = range_none,
      heap = h\<rparr>"

section \<open>Setting a bus up\<close>

definition reserve :: "u64 \<Rightarrow> u64 \<Rightarrow> (bus, range) op" where
  "reserve start sz = (\<lambda>b.
     let r = \<lparr>range_start = start, range_size = sz\<rparr> in
     case add_range r (ranges b) of
       (Inl e, m) \<Rightarrow> (Inl e, b\<lparr>ranges := m\<rparr>)
     | (Inr _, m) \<Rightarrow> (Inr r, b\<lparr>ranges := m\<rparr>))"

definition set_ram :: "ram \<Rightarrow> u64 \<Rightarrow> (bus, unit) op" where
  "set_ram r start =
     and_then (reserve start (ram_len r)) (\<lambda>rg.
     modify (\<lambda>b. b\<lparr>ram_range := rg, bus_ram := r\<rparr>))"

definition set_stack :: "ram \<Rightarrow> u64 \<Rightarrow> (bus, unit) op" where
  "set_stack r start =
     and_then (reserve start (ram_len r)) (\<lambda>rg.
     modify (\<lambda>b. b\<lparr>stack_range := rg, bus_stack := r\<rparr>))"

definition set_bootloader :: "ram \<Rightarrow> u64 \<Rightarrow> (bus, unit) op" where
  "set_bootloader r start =
     and_then (reserve start (ram_len r)) (\<lambda>rg.
     modify (\<lambda>b. b\<lparr>bootloader_range := rg, bus_bootloader := r\<rparr>))"

definition set_clint :: "nat \<Rightarrow> u64 \<Rightarrow> (bus, unit) op" where
  "set_clint c start =
     and_then (gets (\<lambda>b. clint_len (clints (heap b) c))) (\<lambda>sz.
     and_then (reserve start sz) (\<lambda>rg.
     modify (\<lambda>b. b\<lparr>clint_range := rg, bus_clint := Some c\<rparr>)))"

definition set_uart :: "nat \<Rightarrow> u64 \<Rightarrow> (bus, unit) op" where
  "set_uart u start =
     and_then (gets (\<lambda>b. uart_len (uarts (heap b) u))) (\<lambda>sz.
     and_then (reserve start sz) (\<lambda>rg.
     modify (\<lambda>b. b\<lparr>uart_range := rg, bus_uart := Some u\<rparr>)))"

definition set_plic :: "nat \<Rightarrow> u64 \<Rightarrow> (bus, unit) op" where
  "set_plic p start =
     and_then (gets (\<lambda>b. plic_len (plics (heap b) p))) (\<lambda>sz.
     and_then (reserve start sz) (\<lambda>rg.
     modify (\<lambda>b. b\<lparr>plic_range := rg, bus_plic := Some p\<rparr>)))"

definition set_virtio :: "nat \<Rightarrow> u64 \<Rightarrow> (bus, unit) op" where
  "set_virtio v start = (\<lambda>b.
     case virtios (heap b) v of
       Borrowed_mut \<Rightarrow> (Inl (Panic Already_borrowed), b)
     | Available blk \<Rightarrow>
         and_then (reserve start (virtio_len blk)) (\<lambda>rg.
         modify (\<lambda>b. b\<lparr>virtio_range := rg, bus_virtio := Some v\<rparr>)) b)"

section \<open>Reaching the devices\<close>

text \<open>The closures registered with the PLIC: \<open>borrow()\<close> the cell and read its status.\<close>

definition irq_status :: "heap \<Rightarrow> irq_source \<Rightarrow> u32 res" where
  "irq_status h source =
     (case source of
        Uart_source u \<Rightarrow> Inr (uart_interrupt_status (uarts h u))
      | Virtio_source v \<Rightarrow>
          (case virtios h v of
             Available blk \<Rightarrow> Inr (interrupt_status blk)
           | Borrowed_mut \<Rightarrow> Inl (Panic Already_borrowed)))"

definition on_ram :: "(ram, 'a) op \<Rightarrow> (bus, 'a) op" where
  "on_ram m = (\<lambda>b. case m (bus_ram b) of (x, r) \<Rightarrow> (x, b\<lparr>bus_ram := r\<rparr>))"

definition on_stack :: "(ram, 'a) op \<Rightarrow> (bus, 'a) op" where
  "on_stack m = (\<lambda>b. case m (bus_stack b) of (x, r) \<Rightarrow> (x, b\<lparr>bus_stack := r\<rparr>))"

definition on_bootloader :: "(ram, 'a) op \<Rightarrow> (bus, 'a) op" where
  "on_bootloader m =
     (\<lambda>b. case m (bus_bootloader b) of (x, r) \<Rightarrow> (x, b\<lparr>bus_bootloader := r\<rparr>))"

definition on_clint :: "(clint, 'a) op \<Rightarrow> (bus, 'a) op" where
  "on_clint m = (\<lambda>b.
     case bus_clint b of
       None \<Rightarrow> (Inl (Panic Unwrap_none), b)
     | Some c \<Rightarrow>
         (case m (clints (heap b) c) of (x, d) \<Rightarrow>
            (x, b\<lparr>heap := (heap b)\<lparr>clints := (clints (heap b))(c := d)\<rparr>\<rparr>)))"

definition on_uart :: "(uart, 'a) op \<Rightarrow> (bus, 'a) op" where
  "on_uart m = (\<lambda>b.
     case bus_uart b of
       None \<Rightarrow> (Inl (Panic Unwrap_none), b)
     | Some u \<Rightarrow>
         (case m (uarts (heap b) u) of (x, d) \<Rightarrow>
            (x, b\<lparr>heap := (heap b)\<lparr>uarts := (uarts (heap b))(u := d)\<rparr>\<rparr>)))"

definition on_plic :: "(plic, 'a) op \<Rightarrow> (bus, 'a) op" where
  "on_plic m = (\<lambda>b.
     case bus_plic b of
       None \<Rightarrow> (Inl (Panic Unwrap_none), b)
     | Some p \<Rightarrow>
         (case m (plics (heap b) p) of (x, d) \<Rightarrow>
            (x, b\<lparr>heap := (heap b)\<lparr>plics := (plics (heap b))(p := d)\<rparr>\<rparr>)))"

text \<open>
  \<open>virtio.borrow_mut()\<close> around an operation that also gets the bus: the content leaves its cell,
  the operation runs with the cell marked borrowed, and dropping the guard puts it back.
\<close>

definition set_virtio_cell :: "nat \<Rightarrow> virtio_blk refcell \<Rightarrow> bus \<Rightarrow> bus" where
  "set_virtio_cell i c b = b\<lparr>heap := (heap b)\<lparr>virtios := (virtios (heap b))(i := c)\<rparr>\<rparr>"

definition on_virtio :: "(virtio_blk \<times> bus, 'a) op \<Rightarrow> (bus, 'a) op" where
  "on_virtio m = (\<lambda>b.
     case bus_virtio b of
       None \<Rightarrow> (Inl (Panic Unwrap_none), b)
     | Some i \<Rightarrow>
         (case virtios (heap b) i of
            Borrowed_mut \<Rightarrow> (Inl (Panic Already_borrowed), b)
          | Available blk \<Rightarrow>
              (case m (blk, set_virtio_cell i Borrowed_mut b) of (x, (blk', b')) \<Rightarrow>
                 (x, set_virtio_cell i (Available blk') b'))))"

text \<open>An operation of the device alone, as one on the device and the bus.\<close>

definition on_fst :: "('a, 'x) op \<Rightarrow> ('a \<times> 'b, 'x) op" where
  "on_fst m = (\<lambda>(a, b). case m a of (x, a') \<Rightarrow> (x, (a', b)))"

section \<open>Reading\<close>

definition read_mmio :: "u64 \<Rightarrow> u8 \<Rightarrow> u64 \<Rightarrow> (bus, u64) op" where
  "read_mmio address sz sz64 = (\<lambda>b.
     if contains (bootloader_range b) address sz64
     then on_bootloader (ram_read (address - range_start (bootloader_range b)) sz) b
     else if contains (clint_range b) address sz64
     then on_clint (clint_read (address - range_start (clint_range b)) sz) b
     else if contains (uart_range b) address sz64
     then on_uart (uart_read (address - range_start (uart_range b)) sz) b
     else if contains (plic_range b) address sz64
     then on_plic (plic_read (irq_status (heap b)) (address - range_start (plic_range b)) sz) b
     else if contains (virtio_range b) address sz64
     then on_virtio (on_fst (virtio_read (address - range_start (virtio_range b)) sz)) b
     else (error No_device_mapped, b))"

definition bus_read :: "u64 \<Rightarrow> u8 \<Rightarrow> (bus, u64) op" where
  "bus_read address sz = (\<lambda>b.
     if contains (ram_range b) address (ucast sz)
     then on_ram (ram_read (address - range_start (ram_range b)) sz) b
     else if contains (stack_range b) address (ucast sz)
     then on_stack (ram_read (address - range_start (stack_range b)) sz) b
     else read_mmio address sz (ucast sz) b)"

section \<open>Writing\<close>

text \<open>
  \<open>Bus::write\<close> and \<open>VirtIOBlk::write\<close> call each other. The write to the VirtIO range is the
  argument \<open>vw\<close> here; \<open>bus_dma_write\<close> is the bus as the device sees it while its own cell is
  borrowed, and \<open>bus_write\<close> the bus as everybody else does.
\<close>

definition write_mmio_with ::
  "(u64 \<Rightarrow> u8 \<Rightarrow> u64 \<Rightarrow> (virtio_blk \<times> bus, unit) op) \<Rightarrow> u64 \<Rightarrow> u8 \<Rightarrow> u64 \<Rightarrow> u64 \<Rightarrow> (bus, unit) op"
where
  "write_mmio_with vw address sz val sz64 = (\<lambda>b.
     if contains (bootloader_range b) address sz64
     then on_bootloader (ram_write (address - range_start (bootloader_range b)) sz val) b
     else if contains (clint_range b) address sz64
     then on_clint (clint_write (address - range_start (clint_range b)) sz val) b
     else if contains (uart_range b) address sz64
     then on_uart (uart_write (address - range_start (uart_range b)) sz val) b
     else if contains (plic_range b) address sz64
     then on_plic (plic_write (address - range_start (plic_range b)) sz val) b
     else if contains (virtio_range b) address sz64
     then on_virtio (vw (address - range_start (virtio_range b)) sz val) b
     else (error No_device_mapped, b))"

definition bus_write_with ::
  "(u64 \<Rightarrow> u8 \<Rightarrow> u64 \<Rightarrow> (virtio_blk \<times> bus, unit) op) \<Rightarrow> u64 \<Rightarrow> u8 \<Rightarrow> u64 \<Rightarrow> (bus, unit) op" where
  "bus_write_with vw address sz val = (\<lambda>b.
     if contains (ram_range b) address (ucast sz)
     then on_ram (ram_write (address - range_start (ram_range b)) sz val) b
     else if contains (stack_range b) address (ucast sz)
     then on_stack (ram_write (address - range_start (stack_range b)) sz val) b
     else write_mmio_with vw address sz val (ucast sz) b)"

definition bus_dma_write :: "u64 \<Rightarrow> u8 \<Rightarrow> u64 \<Rightarrow> (bus, unit) op" where
  "bus_dma_write = bus_write_with (\<lambda>_ _ _. fail (Panic Already_borrowed))"

definition bus_write :: "u64 \<Rightarrow> u8 \<Rightarrow> u64 \<Rightarrow> (bus, unit) op" where
  "bus_write = bus_write_with (virtio_write bus_read bus_dma_write)"

section \<open>The mutual recursion\<close>

text \<open>While the VirtIO cell is borrowed, the bus refuses it: writing through \<open>bus_write\<close> and
  through \<open>bus_dma_write\<close> is the same, and no access gives the cell back.\<close>

definition virtio_borrowed :: "bus \<Rightarrow> bool" where
  "virtio_borrowed b \<longleftrightarrow> (case bus_virtio b of None \<Rightarrow> False | Some i \<Rightarrow> virtios (heap b) i = Borrowed_mut)"

lemma on_virtio_borrowed: "virtio_borrowed b \<Longrightarrow> on_virtio m b = (Inl (Panic Already_borrowed), b)"
  by (auto simp: virtio_borrowed_def on_virtio_def split: option.splits)

lemma on_field_borrowed [simp]:
  "virtio_borrowed (snd (on_ram m b)) = virtio_borrowed b"
  "virtio_borrowed (snd (on_stack m b)) = virtio_borrowed b"
  "virtio_borrowed (snd (on_bootloader m b)) = virtio_borrowed b"
  "virtio_borrowed (snd (on_clint mc b)) = virtio_borrowed b"
  "virtio_borrowed (snd (on_uart mu b)) = virtio_borrowed b"
  "virtio_borrowed (snd (on_plic mp b)) = virtio_borrowed b"
  by (simp_all add: virtio_borrowed_def on_ram_def on_stack_def on_bootloader_def on_clint_def on_uart_def
      on_plic_def split: option.splits prod.splits)

lemma bus_read_borrowed: "keeps virtio_borrowed (\<lambda>_. True) (bus_read a n)"
  by (simp add: keeps_def bus_read_def read_mmio_def on_virtio_borrowed)

lemma bus_write_with_borrowed: "agrees virtio_borrowed (bus_write_with vw a n v) (bus_write_with vw' a n v)"
  by (rule agreesI) (simp add: bus_write_with_def write_mmio_with_def on_virtio_borrowed)

interpretation bus_dma: dma_bus virtio_borrowed bus_read bus_dma_write bus_write
  by unfold_locales (simp_all add: bus_read_borrowed bus_write_with_borrowed bus_dma_write_def bus_write_def)

lemma on_virtio_cong:
  assumes "agrees (\<lambda>s. virtio_borrowed (snd s)) m m'"
  shows "on_virtio m = on_virtio m'"
proof
  fix b
  have "m (blk, set_virtio_cell i Borrowed_mut b) = m' (blk, set_virtio_cell i Borrowed_mut b)"
    if "bus_virtio b = Some i" for i blk
    using agreesD [OF assms] that by (simp add: virtio_borrowed_def set_virtio_cell_def)
  then show "on_virtio m b = on_virtio m' b"
    by (simp add: on_virtio_def split: option.split refcell.split)
qed

text \<open>
  The bus and its device call each other. \<open>bus_write\<close>, which is built in two layers, satisfies
  the recursion of the source: a write that reaches the VirtIO range runs the device's register
  write with the same bus as its DMA target, read and written through the same two operations.
\<close>

lemma bus_write_recursion: "bus_write = bus_write_with (virtio_write bus_read bus_write)"
proof -
  have "on_virtio (virtio_write bus_read bus_dma_write a n v) = on_virtio (virtio_write bus_read bus_write a n v)"
    for a n v by (rule on_virtio_cong) (rule bus_dma.virtio_write_agrees)
  then show ?thesis
    by (intro ext) (simp add: bus_write_def bus_write_with_def write_mmio_with_def)
qed

section \<open>What reading changes\<close>

text \<open>The device accessors with the projections of what the device operation returns.\<close>

lemma on_field_eqs:
  "on_ram m b = (fst (m (bus_ram b)), b\<lparr>bus_ram := snd (m (bus_ram b))\<rparr>)"
  "on_stack m b = (fst (m (bus_stack b)), b\<lparr>bus_stack := snd (m (bus_stack b))\<rparr>)"
  "on_bootloader m b = (fst (m (bus_bootloader b)), b\<lparr>bus_bootloader := snd (m (bus_bootloader b))\<rparr>)"
  "bus_clint b = Some i \<Longrightarrow> on_clint mc b = (fst (mc (clints (heap b) i)),
     b\<lparr>heap := (heap b)\<lparr>clints := (clints (heap b))(i := snd (mc (clints (heap b) i)))\<rparr>\<rparr>)"
  "bus_uart b = Some i \<Longrightarrow> on_uart mu b = (fst (mu (uarts (heap b) i)),
     b\<lparr>heap := (heap b)\<lparr>uarts := (uarts (heap b))(i := snd (mu (uarts (heap b) i)))\<rparr>\<rparr>)"
  "bus_plic b = Some i \<Longrightarrow> on_plic mp b = (fst (mp (plics (heap b) i)),
     b\<lparr>heap := (heap b)\<lparr>plics := (plics (heap b))(i := snd (mp (plics (heap b) i)))\<rparr>\<rparr>)"
  by (simp_all add: on_ram_def on_stack_def on_bootloader_def on_clint_def on_uart_def on_plic_def
      split: prod.split)

lemma on_field_None:
  "bus_clint b = None \<Longrightarrow> on_clint mc b = (Inl (Panic Unwrap_none), b)"
  "bus_uart b = None \<Longrightarrow> on_uart mu b = (Inl (Panic Unwrap_none), b)"
  "bus_plic b = None \<Longrightarrow> on_plic mp b = (Inl (Panic Unwrap_none), b)"
  "bus_virtio b = None \<Longrightarrow> on_virtio mv b = (Inl (Panic Unwrap_none), b)"
  by (simp_all add: on_clint_def on_uart_def on_plic_def on_virtio_def)

lemma on_field_pure:
  "pure_op m \<Longrightarrow> pure_op (on_ram m)" "pure_op m \<Longrightarrow> pure_op (on_stack m)"
  "pure_op m \<Longrightarrow> pure_op (on_bootloader m)" "pure_op mc \<Longrightarrow> pure_op (on_clint mc)"
  "pure_op mu \<Longrightarrow> pure_op (on_uart mu)" "pure_op mp \<Longrightarrow> pure_op (on_plic mp)"
proof -
  show "pure_op m \<Longrightarrow> pure_op (on_ram m)" "pure_op m \<Longrightarrow> pure_op (on_stack m)"
    "pure_op m \<Longrightarrow> pure_op (on_bootloader m)"
    by (simp_all add: pure_op_def on_field_eqs)
  show "pure_op mc \<Longrightarrow> pure_op (on_clint mc)" unfolding pure_op_def
  proof
    fix s assume "\<forall>s. snd (mc s) = s" then show "snd (on_clint mc s) = s"
      by (cases "bus_clint s") (simp_all add: on_field_eqs on_field_None)
  qed
  show "pure_op mu \<Longrightarrow> pure_op (on_uart mu)" unfolding pure_op_def
  proof
    fix s assume "\<forall>s. snd (mu s) = s" then show "snd (on_uart mu s) = s"
      by (cases "bus_uart s") (simp_all add: on_field_eqs on_field_None)
  qed
  show "pure_op mp \<Longrightarrow> pure_op (on_plic mp)" unfolding pure_op_def
  proof
    fix s assume "\<forall>s. snd (mp s) = s" then show "snd (on_plic mp s) = s"
      by (cases "bus_plic s") (simp_all add: on_field_eqs on_field_None)
  qed
qed

lemma on_virtio_fst_pure: "pure_op m \<Longrightarrow> snd (on_virtio (on_fst m) b) = b"
proof (cases "bus_virtio b")
  case (Some i)
  assume p: "pure_op m"
  show ?thesis
  proof (cases "virtios (heap b) i")
    case (Available v)
    then have "(virtios (heap b))(i := Available v) = virtios (heap b)" by auto
    moreover obtain r where "m v = (r, v)" using p by (metis pure_op_def prod.collapse)
    ultimately show ?thesis
      using Some Available by (simp add: on_virtio_def on_fst_def set_virtio_cell_def)
  qed (simp add: on_virtio_def Some)
qed (simp add: on_field_None)

lemma uart_read_pure: "n \<noteq> 1 \<Longrightarrow> pure_op (uart_read a n)"
  by (simp add: pure_op_def uart_read_def)

lemma virtio_read_pure: "pure_op (virtio_read a n)"
  by (simp add: pure_op_def virtio_read_def)

lemmas device_read_pure = on_field_pure(1-3) [OF ram_read_pure, THEN pure_op_state]
  on_field_pure(4) [OF clint_read_pure, THEN pure_op_state]
  on_field_pure(6) [OF plic_read_pure, THEN pure_op_state]
  on_virtio_fst_pure [OF virtio_read_pure]

lemma bus_read_pure: "n \<noteq> 1 \<Longrightarrow> pure_op (bus_read a n)"
  by (simp add: pure_op_def bus_read_def read_mmio_def device_read_pure
      on_field_pure(5) [OF uart_read_pure, THEN pure_op_state])

section \<open>Memory behind the bus\<close>

text \<open>An access that the bus sends to main memory and main memory can serve.\<close>

definition bus_ram_valid :: "bus \<Rightarrow> u64 \<Rightarrow> u8 \<Rightarrow> bool" where
  "bus_ram_valid b a n \<longleftrightarrow> n \<in> {1, 2, 4, 8} \<and> contains (ram_range b) a (ucast n)
     \<and> unat (range_start (ram_range b)) + unat (range_size (ram_range b)) < 2 ^ 64
     \<and> length (ram_data (bus_ram b)) = unat (range_size (ram_range b))"

lemma unat_ucast_size: "unat (ucast (n :: u8) :: u64) = unat n"
  by (simp add: unsigned_ucast_eq take_bit_nat_eq_self order.strict_trans [OF unsigned_less])

lemma bus_ram_valid_ram:
  assumes "bus_ram_valid b a n"
  shows "ram_valid (bus_ram b) (a - range_start (ram_range b)) n"
    "unat (a - range_start (ram_range b)) = unat a - unat (range_start (ram_range b))"
    "unat (range_start (ram_range b)) \<le> unat a"
proof -
  let ?r = "ram_range b"
  have "covers (range_start ?r, range_size ?r) a (ucast n)"
    using assms contains_covers [of ?r a "ucast n"] by (auto simp: bus_ram_valid_def entry_end_def)
  then have c: "unat (range_start ?r) \<le> unat a" "unat a + unat n \<le> unat (range_start ?r) + unat (range_size ?r)"
    by (simp_all add: covers_def entry_end_def unat_ucast_size)
  then show "unat (a - range_start ?r) = unat a - unat (range_start ?r)"
    "unat (range_start ?r) \<le> unat a"
    by (simp_all add: unat_sub word_le_nat_alt)
  with c assms show "ram_valid (bus_ram b) (a - range_start ?r) n"
    by (auto simp: bus_ram_valid_def ram_valid_def)
qed

lemma bus_read_ram:
  "bus_ram_valid b a n \<Longrightarrow> bus_read a n b = on_ram (ram_read (a - range_start (ram_range b)) n) b"
  by (simp add: bus_ram_valid_def bus_read_def)

lemma bus_write_ram:
  "bus_ram_valid b a n \<Longrightarrow>
     bus_write_with vw a n v b = on_ram (ram_write (a - range_start (ram_range b)) n v) b"
  by (simp add: bus_ram_valid_def bus_write_with_def)

lemma bus_write_ram_valid:
  "bus_ram_valid b a n \<Longrightarrow> bus_ram_valid (snd (bus_write_with vw a n v b)) c k = bus_ram_valid b c k"
  by (simp add: bus_write_ram on_field_eqs bus_ram_valid_def)

lemma bus_ram_memory: "byte_memory bus_ram_valid bus_read (bus_write_with vw)"
proof
  fix b a n v c k
  assume valid: "bus_ram_valid b a n"
  note R = bus_ram_valid_ram [OF valid]
  obtain r where w: "ram_write (a - range_start (ram_range b)) n v (bus_ram b) = (Inr (), r)"
    using ram_mem.write_eq [OF R(1)] by blast
  have after: "bus_write_with vw a n v b = (Inr (), b\<lparr>bus_ram := r\<rparr>)"
    using w by (simp add: bus_write_ram [OF valid] on_field_eqs)
  show "\<exists>v. bus_read a n b = (Inr v, b)"
    using ram_mem.read_returns [OF R(1)] by (auto simp: bus_read_ram [OF valid] on_field_eqs)
  show "fst (bus_write_with vw a n v b) = Inr ()" by (simp add: after)
  show kept: "bus_ram_valid (snd (bus_write_with vw a n v b)) c k = bus_ram_valid b c k" for c k
    by (rule bus_write_ram_valid [OF valid])
  show "fst (bus_read a n (snd (bus_write_with vw a n v b))) = Inr (take_bit (8 * unat n) v)"
    using kept [of a n] valid ram_mem.read_same [OF R(1), of v] w
    by (simp add: after bus_read_ram on_field_eqs)
  assume other: "bus_ram_valid b c k" and disj: "unat a + unat n \<le> unat c \<or> unat c + unat k \<le> unat a"
  note O = bus_ram_valid_ram [OF other]
  have "fst (ram_read (c - range_start (ram_range b)) k r) = fst (ram_read (c - range_start (ram_range b)) k (bus_ram b))"
  proof -
    let ?s = "range_start (ram_range b)"
    have "unat (a - ?s) + unat n \<le> unat (c - ?s) \<or> unat (c - ?s) + unat k \<le> unat (a - ?s)"
      using disj R(2,3) O(2,3) by linarith
    with ram_mem.read_other [OF R(1) O(1), of v] w show ?thesis by simp
  qed
  then show "fst (bus_read c k (snd (bus_write_with vw a n v b))) = fst (bus_read c k b)"
    using kept [of c k] other by (simp add: after bus_read_ram on_field_eqs)
qed

interpretation bus_mem: byte_memory bus_ram_valid bus_read bus_write
  unfolding bus_write_def by (rule bus_ram_memory)

interpretation dma_mem: byte_memory bus_ram_valid bus_read bus_dma_write
  unfolding bus_dma_write_def by (rule bus_ram_memory)

text \<open>
  C4: memory through the bus. A store that falls in main memory succeeds and changes nothing but
  main memory; loading the same place gives the value truncated to the width of the store, and
  loading any disjoint place of main memory gives what it gave before.
\<close>

theorem bus_store_load:
  assumes "bus_ram_valid b a n"
  shows "\<exists>r. bus_write a n v b = (Inr (), b\<lparr>bus_ram := r\<rparr>)
    \<and> bus_read a n (b\<lparr>bus_ram := r\<rparr>) = (Inr (take_bit (8 * unat n) v), b\<lparr>bus_ram := r\<rparr>)
    \<and> (\<forall>c k. bus_ram_valid b c k \<and> (unat a + unat n \<le> unat c \<or> unat c + unat k \<le> unat a)
         \<longrightarrow> fst (bus_read c k (b\<lparr>bus_ram := r\<rparr>)) = fst (bus_read c k b))"
proof -
  let ?r = "snd (ram_write (a - range_start (ram_range b)) n v (bus_ram b))"
  have w: "bus_write a n v b = (Inr (), b\<lparr>bus_ram := ?r\<rparr>)"
    using bus_mem.write_returns [OF assms, of v]
    by (simp add: bus_write_def bus_write_ram [OF assms] on_field_eqs)
  have r: "bus_read a n (b\<lparr>bus_ram := ?r\<rparr>) = (Inr (take_bit (8 * unat n) v), b\<lparr>bus_ram := ?r\<rparr>)"
    using bus_mem.write_then_read [OF assms, of v] by (simp add: and_then_def w)
  have "fst (bus_read c k (b\<lparr>bus_ram := ?r\<rparr>)) = fst (bus_read c k b)"
    if "bus_ram_valid b c k" "unat a + unat n \<le> unat c \<or> unat c + unat k \<le> unat a" for c k
    using bus_mem.read_other [OF assms that, of v] by (simp add: w)
  with w r show ?thesis by blast
qed

text \<open>A bus with a main memory at address 0 and nothing else.\<close>

definition empty_heap :: heap where
  "empty_heap = \<lparr>clints = (\<lambda>_. clint_new 0 0), uarts = (\<lambda>_. uart_new 0 None None),
     plics = (\<lambda>_. plic_new 0), virtios = (\<lambda>_. Available (virtio_new 0 None))\<rparr>"

definition memory_bus :: "u8 list \<Rightarrow> bus" where
  "memory_bus d = (bus_new empty_heap)\<lparr>bus_ram := \<lparr>ram_data = d\<rparr>,
     ram_range := \<lparr>range_start = 0, range_size = of_nat (length d)\<rparr>\<rparr>"

lemma memory_bus_valid:
  assumes "length d < 2 ^ 64" "n \<in> {1, 2, 4, 8}" "unat a + unat n \<le> length d"
  shows "bus_ram_valid (memory_bus d) a n"
proof -
  have l: "unat (of_nat (length d) :: u64) = length d" using assms(1) by (simp add: unat_of_nat)
  have "contains (ram_range (memory_bus d)) a (ucast n)"
    using assms l contains_covers [of "ram_range (memory_bus d)" a "ucast n"]
    by (simp add: memory_bus_def covers_def entry_end_def unat_ucast_size)
  with assms l show ?thesis by (simp add: bus_ram_valid_def memory_bus_def)
qed

lemma memory_bus_read:
  assumes "length d < 2 ^ 64" "n \<in> {1, 2, 4, 8}" "unat a + unat n \<le> length d"
  shows "bus_read a n (memory_bus d) = (Inr (from_le_bytes (take (unat n) (drop (unat a) d))), memory_bus d)"
proof -
  note V = memory_bus_valid [OF assms]
  have "ram_valid \<lparr>ram_data = d\<rparr> a n" using assms by (simp add: ram_valid_def)
  from ram_read_valid [OF this] show ?thesis
    by (simp add: bus_read_ram [OF V] on_field_eqs) (simp add: memory_bus_def bus_new_def)
qed

theorem bus_store_load_witness:
  "\<exists>r. bus_write 4 2 0x12345 (memory_bus [0, 0, 0, 0, 0, 0, 0, 0]) =
         (Inr (), (memory_bus [0, 0, 0, 0, 0, 0, 0, 0])\<lparr>bus_ram := r\<rparr>)
     \<and> fst (bus_read 4 2 ((memory_bus [0, 0, 0, 0, 0, 0, 0, 0])\<lparr>bus_ram := r\<rparr>)) = Inr 0x2345"
proof -
  have "bus_ram_valid (memory_bus [0, 0, 0, 0, 0, 0, 0, 0]) 4 2" by (rule memory_bus_valid) simp_all
  from bus_store_load [OF this, of "0x12345"] show ?thesis by auto
qed

section \<open>The device's memory traffic\<close>

text \<open>
  C3: a block written to the disk and read back. With a write request and a read request for the
  same sector in main memory, running the first and then the second succeeds, and every byte of
  the second buffer is then the byte the first buffer held. (The sector end must stay below
  \<open>2 ^ 63\<close>, the largest disk a vector can hold.)
\<close>

theorem block_write_read_back:
  assumes "bus_read h 4 b = (Inr t, b)" "(ucast t :: u32) = VIRTIO_BLK_T_OUT" "bus_read (h + 8) 8 b = (Inr s, b)"
    and "bus_read h' 4 b = (Inr t', b)" "(ucast t' :: u32) = VIRTIO_BLK_T_IN" "bus_read (h' + 8) 8 b = (Inr s, b)"
    and "unat s * 512 + unat len < 2 ^ 63"
    and "unat d + unat len \<le> 2 ^ 64" "\<forall>i < unat len. bus_ram_valid b (d + of_nat i) 1"
    and "unat d' + unat len \<le> 2 ^ 64" "\<forall>i < unat len. bus_ram_valid b (d' + of_nat i) 1"
  shows "\<exists>v' b'. and_then (block_request bus_read bus_dma_write h d len)
        (\<lambda>_. block_request bus_read bus_dma_write h' d' len) (v, b) = (Inr (), (v', b'))
    \<and> (\<forall>i < unat len. fst (bus_read (d' + of_nat i) 1 b')
         = Inr (ucast (ucast (projr (fst (bus_read (d + of_nat i) 1 b))) :: u8)))"
  using assms by (intro dma_mem.block_write_read) (auto simp: dma_mem.header_def dma_mem.buffer_def)

theorem block_write_read_back_witness:
  "\<exists>v' b'. and_then (block_request bus_read bus_dma_write 0 32 2)
        (\<lambda>_. block_request bus_read bus_dma_write 16 34 2)
        (virtio_new 0 None, memory_bus ([1, 0, 0, 0, 0, 0, 0, 0, 3, 0, 0, 0, 0, 0, 0, 0] @
           [0, 0, 0, 0, 0, 0, 0, 0, 3, 0, 0, 0, 0, 0, 0, 0] @ [0xab, 0xcd, 0, 0])) = (Inr (), (v', b'))
    \<and> fst (bus_read 34 1 b') = Inr 0xab \<and> fst (bus_read 35 1 b') = Inr 0xcd"
proof -
  let ?d = "[1, 0, 0, 0, 0, 0, 0, 0, 3, 0, 0, 0, 0, 0, 0, 0] @
           [0, 0, 0, 0, 0, 0, 0, 0, 3, 0, 0, 0, 0, 0, 0, 0] @ [0xab, 0xcd, 0, 0] :: u8 list"

  have "\<forall>i < unat (2 :: u32). bus_ram_valid (memory_bus ?d) (32 + of_nat i) 1"
    "\<forall>i < unat (2 :: u32). bus_ram_valid (memory_bus ?d) (34 + of_nat i) 1"
    by (auto simp: less_2_cases_iff memory_bus_valid)
  then obtain v' b' where B: "and_then (block_request bus_read bus_dma_write 0 32 2)
      (\<lambda>_. block_request bus_read bus_dma_write 16 34 2) (virtio_new 0 None, memory_bus ?d) = (Inr (), (v', b'))"
    "\<forall>i < unat (2 :: u32). fst (bus_read (34 + of_nat i) 1 b')
         = Inr (ucast (ucast (projr (fst (bus_read (32 + of_nat i) 1 (memory_bus ?d)))) :: u8))"
    using block_write_read_back [where h = 0 and h' = 16 and b = "memory_bus ?d" and t = 1 and t' = 0 and s = 3
        and len = 2 and d = 32 and d' = 34 and v = "virtio_new 0 None"] by (auto simp: memory_bus_read)
  from B(2) [rule_format, of 0] B(2) [rule_format, of 1] B(1) show ?thesis by (simp add: memory_bus_read)
qed

text \<open>
  C39: a device pointed at itself. While the device's cell is borrowed for a write, a block read
  of at least one byte, of a sector below \<open>2 ^ 63\<close> bytes, whose buffer starts in the device's own register window (and in no other range) panics on the
  second borrow, after the header was read: a guest can stop the emulator this way.
\<close>

theorem self_dma_panics:
  assumes "virtio_borrowed b" "0 < len" "unat s * 512 + unat len < 2 ^ 63"
    and "bus_read h 4 b = (Inr t, b)" "(ucast t :: u32) = VIRTIO_BLK_T_IN" "bus_read (h + 8) 8 b = (Inr s, b)"
    and "contains (virtio_range b) d 1"
    and "\<not> contains (ram_range b) d 1" "\<not> contains (stack_range b) d 1" "\<not> contains (bootloader_range b) d 1"
    and "\<not> contains (clint_range b) d 1" "\<not> contains (uart_range b) d 1" "\<not> contains (plic_range b) d 1"
  shows "\<exists>v'. block_request bus_read bus_dma_write h d len (v, b) = (Inl (Panic Already_borrowed), (v', b))"
proof -
  note U = unat_sector_end [OF assms(3)]
  obtain v' where v': "disk_grow (unat s * 512 + unat len) (v, b) = (Inr (), (v', b))"
    "unat s * 512 + unat len \<le> length (disk v')"
    using disk_grow_returns [OF assms(3), of v b] by blast
  obtain bs where bs: "disk_slice (unat s * 512) (unat s * 512 + unat len) (v', b) = (Inr bs, (v', b))"
    "length bs = unat len" using disk_slice_returns [OF v'(2), of b] by blast
  from bs(2) assms(2) obtain x xs where "bs = x # xs" by (cases bs) (auto simp: unat_eq_zero word_gt_0)
  moreover have "bus_dma_write d 1 w b = (Inl (Panic Already_borrowed), b)" for w
    using assms by (simp add: bus_dma_write_def bus_write_with_def write_mmio_with_def on_virtio_borrowed)
  ultimately have "dma_to_guest bus_dma_write d bs b = (Inl (Panic Already_borrowed), b)"
    by (simp add: and_then_def)
  then show ?thesis
    using assms(4-6) v'(1) bs(1) by (auto simp: block_request_def and_then_def on_snd_def U Let_def)
qed

theorem self_dma_panics_witness:
  "\<exists>b v'. bus_virtio b = Some 0
     \<and> block_request bus_read bus_dma_write 0 0x1000 4 (virtio_new 0 None, b)
         = (Inl (Panic Already_borrowed), (v', b))"
proof -
  let ?b = "(memory_bus [0, 0, 0, 0, 0, 0, 0, 0, 0, 0, 0, 0, 0, 0, 0, 0])\<lparr>bus_virtio := Some 0,
    virtio_range := \<lparr>range_start = 0x1000, range_size = 0x1000\<rparr>,
    heap := empty_heap\<lparr>virtios := (\<lambda>_. Borrowed_mut)\<rparr>\<rparr>"
  note eval = memory_bus_def bus_new_def range_none_def bus_read_def contains_def checked_add_def on_ram_def
    ram_read_def slice_def virtio_borrowed_def
  have r: "bus_read 0 4 ?b = (Inr 0, ?b)" "bus_read (0 + 8) 8 ?b = (Inr 0, ?b)" by (simp_all add: eval)
  have "virtio_borrowed ?b" "contains (virtio_range ?b) 0x1000 1" "\<not> contains (ram_range ?b) 0x1000 1"
    "\<not> contains (stack_range ?b) 0x1000 1" "\<not> contains (bootloader_range ?b) 0x1000 1"
    "\<not> contains (clint_range ?b) 0x1000 1" "\<not> contains (uart_range ?b) 0x1000 1"
    "\<not> contains (plic_range ?b) 0x1000 1" by (simp_all add: eval)
  from self_dma_panics [OF this(1) _ _ r(1) _ r(2) this(2-8), of 4 "virtio_new 0 None"]
  have "\<exists>v'. block_request bus_read bus_dma_write 0 0x1000 4 (virtio_new 0 None, ?b)
      = (Inl (Panic Already_borrowed), (v', ?b))" by simp
  moreover have "bus_virtio ?b = Some 0" by simp
  ultimately show ?thesis by blast
qed

text \<open>
  C37: reading is free of side effects but for the console: a read of more than one byte, or one
  outside the UART's window, leaves the bus and every device behind it as they were.
\<close>

theorem bus_read_side_effects:
  assumes "n \<noteq> 1 \<or> \<not> contains (uart_range b) a 1"
  shows "snd (bus_read a n b) = b"
proof (cases "n = 1")
  case False
  then show ?thesis using bus_read_pure by (blast intro: pure_op_state)
next
  case True
  with assms show ?thesis by (simp add: bus_read_def read_mmio_def device_read_pure)
qed

theorem bus_read_side_effects_witness: "snd (bus_read 0x2000 8 (memory_bus [])) = memory_bus []"
  by (rule bus_read_side_effects) simp

end
