(* ===== verification/Cpu_State.thy ===== *)
theory Cpu_State
  imports Register Csr Bus
begin

text \<open>
  The state of a hart: the TLB type of \<^verbatim>\<open>mmu.rs\<close> with its operations, and the \<open>Cpu\<close> struct of
  \<^verbatim>\<open>cpu.rs\<close> with its constructor. A hart shares the CLINT, UART and PLIC cells with the bus
  through handles (addresses of the store of \<open>Bus\<close>).
\<close>

section \<open>The TLB\<close>

abbreviation (input) TLB_ENTRIES :: nat where "TLB_ENTRIES \<equiv> 256"

record tlb_entry =
  tlb_valid :: bool
  tlb_vpn :: u64
  tlb_ppn :: u64
  tlb_perm :: u64

type_synonym tlb = "nat \<Rightarrow> tlb_entry"

definition tlb_new :: tlb where
  "tlb_new = (\<lambda>_. \<lparr>tlb_valid = False, tlb_vpn = 0, tlb_ppn = 0, tlb_perm = 0\<rparr>)"

definition tlb_slot :: "u64 \<Rightarrow> nat" where
  "tlb_slot vpn = unat vpn mod TLB_ENTRIES"

definition tlb_lookup :: "tlb \<Rightarrow> u64 \<Rightarrow> (u64 \<times> u64) option" where
  "tlb_lookup t vpn =
     (let e = t (tlb_slot vpn) in
      if tlb_valid e \<and> tlb_vpn e = vpn then Some (tlb_ppn e, tlb_perm e) else None)"

definition tlb_insert :: "u64 \<Rightarrow> u64 \<Rightarrow> u64 \<Rightarrow> tlb \<Rightarrow> tlb" where
  "tlb_insert vpn ppn perm t =
     t(tlb_slot vpn := \<lparr>tlb_valid = True, tlb_vpn = vpn, tlb_ppn = ppn, tlb_perm = perm\<rparr>)"

definition tlb_flush :: "tlb \<Rightarrow> tlb" where
  "tlb_flush t = (\<lambda>i. (t i)\<lparr>tlb_valid := False\<rparr>)"

section \<open>The hart\<close>

record cpu =
  regs :: registers
  pc :: u64
  csrs :: csrs
  mode :: u8
  hartid :: u64
  cpu_clint :: "nat option"
  cpu_uart :: "nat option"
  cpu_plic :: "nat option"
  tlb :: tlb
  uart_poll_countdown :: int

definition cpu_new :: "u64 \<Rightarrow> cpu" where
  "cpu_new hart =
     \<lparr>regs = registers_new, pc = 0,
      csrs = csr_insert (csr_insert (csr_insert csrs_new MSTATUS 0x000a00000000) MIE 0x222)
               MHARTID hart,
      mode = PRIV_M, hartid = hart, cpu_clint = None, cpu_uart = None, cpu_plic = None,
      tlb = tlb_new, uart_poll_countdown = 0\<rparr>"

text \<open>A hart and the bus it is stepped on: the state of every operation with \<open>&mut self\<close> and
  \<open>bus: &mut Bus\<close>.\<close>

type_synonym machine = "cpu \<times> bus"

definition on_cpu :: "(cpu \<Rightarrow> cpu) \<Rightarrow> (machine, unit) op" where
  "on_cpu f = (\<lambda>(c, b). (Inr (), (f c, b)))"

definition get_reg :: "nat \<Rightarrow> (machine, u64) op" where
  "get_reg i = (\<lambda>(c, b). (reg_read (regs c) i, (c, b)))"

definition set_reg :: "nat \<Rightarrow> u64 \<Rightarrow> (machine, unit) op" where
  "set_reg i v = (\<lambda>(c, b).
     case reg_write (regs c) i v of
       Inl e \<Rightarrow> (Inl e, (c, b))
     | Inr r \<Rightarrow> (Inr (), (c\<lparr>regs := r\<rparr>, b)))"

definition cset :: "u32 \<Rightarrow> u64 \<Rightarrow> cpu \<Rightarrow> cpu" where
  "cset addr v c = c\<lparr>csrs := csr_insert (csrs c) addr v\<rparr>"

section \<open>The TLB as a cache\<close>

interpretation tlb: page_cache tlb_lookup tlb_insert tlb_flush
  by unfold_locales (auto simp: tlb_lookup_def tlb_insert_def tlb_flush_def Let_def)

lemma tlb_lookup_new [simp]: "tlb_lookup tlb_new v = None"
  by (simp add: tlb_lookup_def tlb_new_def)

section \<open>Register access\<close>

lemma get_reg_in_range: "i < 32 \<Longrightarrow> get_reg i (c, b) = (Inr (reg_array (regs c) i), (c, b))"
  by (simp add: get_reg_def)

lemma set_reg_in_range:
  "i < 32 \<Longrightarrow> set_reg i v (c, b) =
     (Inr (), (c\<lparr>regs := if i = 0 then regs c else (regs c)\<lparr>reg_array := (reg_array (regs c))(i := v)\<rparr>\<rparr>, b))"
  by (simp add: set_reg_def reg_write_in_range)

section \<open>CSR access\<close>

text \<open>Distinct CSR numbers are distinct cells.\<close>

lemma csr_get_insert:
  "csr_get (csr_insert f a v) x = (if x AND 0xfff = a AND 0xfff then v else csr_get f x)"
proof -
  have "(ucast (x AND 0xfff) :: 12 word) = ucast (a AND 0xfff) \<longleftrightarrow> x AND 0xfff = a AND 0xfff"
  proof
    assume "(ucast (x AND 0xfff) :: 12 word) = ucast (a AND 0xfff)"
    then have "(ucast (ucast (x AND 0xfff) :: 12 word) :: u32) = ucast (ucast (a AND 0xfff) :: 12 word)"
      by simp
    moreover have "(ucast (ucast (y AND 0xfff) :: 12 word) :: u32) = y AND 0xfff" for y :: u32
      by (rule bit_word_eqI) (auto simp: mask_literals bit_simps)
    ultimately show "x AND 0xfff = a AND 0xfff" by metis
  qed simp
  then show ?thesis by (simp add: csr_get_def csr_insert_def)
qed

lemma cset_simps [simp]:
  "csr_get (csrs (cset a v c)) x = (if x AND 0xfff = a AND 0xfff then v else csr_get (csrs c) x)"
  "regs (cset a v c) = regs c" "pc (cset a v c) = pc c" "mode (cset a v c) = mode c"
  "hartid (cset a v c) = hartid c" "tlb (cset a v c) = tlb c" "cpu_clint (cset a v c) = cpu_clint c"
  "cpu_uart (cset a v c) = cpu_uart c" "cpu_plic (cset a v c) = cpu_plic c"
  "uart_poll_countdown (cset a v c) = uart_poll_countdown c"
  by (simp_all add: cset_def csr_get_insert)

lemma cpu_new_csrs:
  "csr_get (csrs (cpu_new h)) x =
     (if x AND 0xfff = MHARTID then h else if x AND 0xfff = MIE then 0x222
      else if x AND 0xfff = MSTATUS then 0x000a00000000 else 0)"
  by (auto simp: cpu_new_def csr_get_insert) (simp add: csr_get_def csrs_new_def)

end
