(* ===== verification/Trap.thy ===== *)
theory Trap
  imports Cpu_State
begin

text \<open>
  \<^verbatim>\<open>trap.rs\<close>: CSR aliasing, trap delivery and interrupt sampling.
\<close>

abbreviation (input) SSTATUS_MASK :: u64 where "SSTATUS_MASK \<equiv> 0x122"
abbreviation (input) SIE_MASK :: u64 where "SIE_MASK \<equiv> 0x222"
abbreviation (input) SIP_MASK :: u64 where "SIP_MASK \<equiv> 0x222"

abbreviation (input) MSTATUS_SIE :: u64 where "MSTATUS_SIE \<equiv> 0x2"
abbreviation (input) MSTATUS_MIE :: u64 where "MSTATUS_MIE \<equiv> 0x8"
abbreviation (input) MSTATUS_SPIE :: u64 where "MSTATUS_SPIE \<equiv> 0x20"
abbreviation (input) MSTATUS_MPIE :: u64 where "MSTATUS_MPIE \<equiv> 0x80"
abbreviation (input) MSTATUS_SPP :: u64 where "MSTATUS_SPP \<equiv> 0x100"
abbreviation (input) MSTATUS_MPP :: u64 where "MSTATUS_MPP \<equiv> 0x1800"

abbreviation (input) MIP_MTIP :: u64 where "MIP_MTIP \<equiv> 0x80"
abbreviation (input) MIP_SEIP :: u64 where "MIP_SEIP \<equiv> 0x200"

abbreviation (input) SUPERVISOR_SOFTWARE_INTERRUPT :: u64 where "SUPERVISOR_SOFTWARE_INTERRUPT \<equiv> 1"
abbreviation (input) MACHINE_SOFTWARE_INTERRUPT :: u64 where "MACHINE_SOFTWARE_INTERRUPT \<equiv> 3"
abbreviation (input) SUPERVISOR_TIMER_INTERRUPT :: u64 where "SUPERVISOR_TIMER_INTERRUPT \<equiv> 5"
abbreviation (input) MACHINE_TIMER_INTERRUPT :: u64 where "MACHINE_TIMER_INTERRUPT \<equiv> 7"
abbreviation (input) SUPERVISOR_EXTERNAL_INTERRUPT :: u64 where "SUPERVISOR_EXTERNAL_INTERRUPT \<equiv> 9"
abbreviation (input) MACHINE_EXTERNAL_INTERRUPT :: u64 where "MACHINE_EXTERNAL_INTERRUPT \<equiv> 11"

definition PRIORITY :: "u64 list" where
  "PRIORITY =
     [MACHINE_EXTERNAL_INTERRUPT, MACHINE_SOFTWARE_INTERRUPT, MACHINE_TIMER_INTERRUPT,
      SUPERVISOR_EXTERNAL_INTERRUPT, SUPERVISOR_SOFTWARE_INTERRUPT, SUPERVISOR_TIMER_INTERRUPT]"

definition MIDELEG_DELEGATABLE_MASK :: u64 where
  "MIDELEG_DELEGATABLE_MASK =
     NOT (wshl 1 (unat MACHINE_SOFTWARE_INTERRUPT) OR wshl 1 (unat MACHINE_TIMER_INTERRUPT)
          OR wshl 1 (unat MACHINE_EXTERNAL_INTERRUPT))"

section \<open>CSR access\<close>

definition aliased_target :: "u32 \<Rightarrow> (u32 \<times> u64) option" where
  "aliased_target addr =
     (if addr = SSTATUS then Some (MSTATUS, SSTATUS_MASK)
      else if addr = SIE then Some (MIE, SIE_MASK)
      else if addr = SIP then Some (MIP, SIP_MASK)
      else None)"

definition csr_read :: "cpu \<Rightarrow> u32 \<Rightarrow> u64" where
  "csr_read c addr =
     (case aliased_target addr of
        Some (base_addr, msk) \<Rightarrow> csr_get (csrs c) base_addr AND msk
      | None \<Rightarrow> csr_get (csrs c) addr)"

definition csr_write :: "cpu \<Rightarrow> u32 \<Rightarrow> u64 \<Rightarrow> cpu" where
  "csr_write c addr v =
     (if addr = MHARTID then c
      else
        (let c' = (case aliased_target addr of
                     Some (base_addr, msk) \<Rightarrow>
                       cset base_addr ((csr_get (csrs c) base_addr AND NOT msk) OR (v AND msk)) c
                   | None \<Rightarrow> cset addr v c)
         in if addr = SATP then c'\<lparr>tlb := tlb_flush (tlb c')\<rparr> else c'))"

section \<open>Trap delivery\<close>

text \<open>The two arms of \<open>raise_trap\<close>: entry to S-mode and to M-mode.\<close>

definition enter_s :: "cpu \<Rightarrow> u64 \<Rightarrow> u64 \<Rightarrow> u64 \<times> cpu" where
  "enter_s c scause_value tval =
     (let c1 = cset STVAL tval (cset SCAUSE scause_value (cset SEPC (pc c) c));
          mstatus = csr_get (csrs c1) MSTATUS;
          sie = (mstatus AND MSTATUS_SIE \<noteq> 0);
          m1 = (mstatus AND NOT MSTATUS_SPIE) OR (if sie then MSTATUS_SPIE else 0);
          m2 = m1 AND NOT MSTATUS_SIE;
          m3 = (m2 AND NOT MSTATUS_SPP) OR (if mode c1 = PRIV_S then MSTATUS_SPP else 0);
          c2 = (cset MSTATUS m3 c1)\<lparr>mode := PRIV_S\<rparr>
      in (csr_get (csrs c2) STVEC AND NOT 0b11, c2))"

definition enter_m :: "cpu \<Rightarrow> u64 \<Rightarrow> u64 \<Rightarrow> u64 \<times> cpu" where
  "enter_m c scause_value tval =
     (let c1 = cset MTVAL tval (cset MCAUSE scause_value (cset MEPC (pc c) c));
          mstatus = csr_get (csrs c1) MSTATUS;
          mie = (mstatus AND MSTATUS_MIE \<noteq> 0);
          m1 = (mstatus AND NOT MSTATUS_MPIE) OR (if mie then MSTATUS_MPIE else 0);
          m2 = m1 AND NOT MSTATUS_MIE;
          m3 = (m2 AND NOT MSTATUS_MPP) OR push_bit 11 (ucast (mode c1));
          c2 = (cset MSTATUS m3 c1)\<lparr>mode := PRIV_M\<rparr>
      in (csr_get (csrs c2) MTVEC AND NOT 0b11, c2))"

definition raise_trap :: "cpu \<Rightarrow> u64 \<Rightarrow> bool \<Rightarrow> u64 \<Rightarrow> u64 \<times> cpu" where
  "raise_trap c cause is_interrupt tval =
     (let deleg_csr = (if is_interrupt then MIDELEG else MEDELEG);
          deleg0 = csr_get (csrs c) deleg_csr;
          deleg = (if is_interrupt then deleg0 AND MIDELEG_DELEGATABLE_MASK else deleg0);
          delegate = (mode c \<noteq> PRIV_M \<and> wshr deleg (unat cause) AND 1 \<noteq> 0);
          scause_value = (if is_interrupt then cause OR push_bit 63 1 else cause)
      in if delegate then enter_s c scause_value tval else enter_m c scause_value tval)"

section \<open>Interrupt sampling\<close>

text \<open>The test the loop of \<open>check_interrupt\<close> makes for one cause: pending, enabled and not held
  back by the interrupt enable of the mode it would be taken in.\<close>

definition deliverable :: "cpu \<Rightarrow> u64 \<Rightarrow> u64 \<Rightarrow> u64 \<Rightarrow> bool" where
  "deliverable c pending_enabled mstatus cause =
     (if pending_enabled AND wshl 1 (unat cause) = 0 then False
      else
        (let deleg = csr_get (csrs c) MIDELEG AND MIDELEG_DELEGATABLE_MASK;
             delegated = (mode c \<noteq> PRIV_M \<and> wshr deleg (unat cause) AND 1 \<noteq> 0)
         in if delegated then \<not> (mode c = PRIV_S \<and> mstatus AND MSTATUS_SIE = 0)
            else \<not> (mode c = PRIV_M \<and> mstatus AND MSTATUS_MIE = 0)))"

fun priority_loop :: "cpu \<Rightarrow> u64 \<Rightarrow> u64 \<Rightarrow> u64 list \<Rightarrow> bool \<times> cpu" where
  "priority_loop c pending_enabled mstatus [] = (False, c)"
| "priority_loop c pending_enabled mstatus (cause # rest) =
     (if deliverable c pending_enabled mstatus cause
      then (case raise_trap c cause True 0 of (new_pc, c') \<Rightarrow> (True, c'\<lparr>pc := new_pc\<rparr>))
      else priority_loop c pending_enabled mstatus rest)"

text \<open>\<open>mip\<close> with the hardware-driven bits refreshed from the CLINT and the PLIC.\<close>

definition sampled_mip :: "heap \<Rightarrow> cpu \<Rightarrow> u64 res" where
  "sampled_mip h c =
     (let mip0 = csr_get (csrs c) MIP;
          with_timer =
            (case cpu_clint c of
               None \<Rightarrow> Inr mip0
             | Some i \<Rightarrow>
                 (case pending (clints h i) (unat (hartid c)) of
                    Inl e \<Rightarrow> Inl e
                  | Inr p \<Rightarrow> Inr (if p then mip0 OR MIP_MTIP else mip0 AND NOT MIP_MTIP)))
      in case with_timer of
           Inl e \<Rightarrow> Inl e
         | Inr mip1 \<Rightarrow>
             (case cpu_plic c of
                None \<Rightarrow> Inr mip1
              | Some i \<Rightarrow>
                  (case claimable (irq_status h) (plics h i) (2 * hartid c + 1) of
                     Inl e \<Rightarrow> Inl e
                   | Inr p \<Rightarrow> Inr (if p then mip1 OR MIP_SEIP else mip1 AND NOT MIP_SEIP))))"

definition check_interrupt :: "(machine, bool) op" where
  "check_interrupt = (\<lambda>(c, b).
     case sampled_mip (heap b) c of
       Inl e \<Rightarrow> (Inl e, (c, b))
     | Inr mip \<Rightarrow>
         (let c1 = cset MIP mip c;
              mie = csr_get (csrs c1) MIE;
              pending_enabled = mip AND mie
          in if pending_enabled = 0 then (Inr False, (c1, b))
             else (case priority_loop c1 pending_enabled (csr_get (csrs c1) MSTATUS) PRIORITY of
                     (taken, c2) \<Rightarrow> (Inr taken, (c2, b)))))"

section \<open>Status bits\<close>

lemma status_literals:
  "bit (0x2 :: u64) k \<longleftrightarrow> k = 1" "bit (0x8 :: u64) k \<longleftrightarrow> k = 3" "bit (0x20 :: u64) k \<longleftrightarrow> k = 5"
  "bit (0x80 :: u64) k \<longleftrightarrow> k = 7" "bit (0x100 :: u64) k \<longleftrightarrow> k = 8" "bit (0x200 :: u64) k \<longleftrightarrow> k = 9"
  "bit (0x1800 :: u64) k \<longleftrightarrow> k = 11 \<or> k = 12"
  "bit (0x122 :: u64) k \<longleftrightarrow> k = 1 \<or> k = 5 \<or> k = 8" "bit (0x222 :: u64) k \<longleftrightarrow> k = 1 \<or> k = 5 \<or> k = 9"
proof -
  have p: "bit (2 ^ n :: u64) k \<longleftrightarrow> k = n" if "n < 64" for n
    using that by (auto simp: bit_exp_iff)
  show "bit (0x2 :: u64) k \<longleftrightarrow> k = 1" "bit (0x8 :: u64) k \<longleftrightarrow> k = 3" "bit (0x20 :: u64) k \<longleftrightarrow> k = 5"
    "bit (0x80 :: u64) k \<longleftrightarrow> k = 7" "bit (0x100 :: u64) k \<longleftrightarrow> k = 8" "bit (0x200 :: u64) k \<longleftrightarrow> k = 9"
    using p [of 1] p [of 3] p [of 5] p [of 7] p [of 8] p [of 9] by simp_all
  have "(0x1800 :: u64) = 2 ^ 11 OR 2 ^ 12" "(0x122 :: u64) = 2 ^ 1 OR 2 ^ 5 OR 2 ^ 8"
    "(0x222 :: u64) = 2 ^ 1 OR 2 ^ 5 OR 2 ^ 9" by simp_all
  then show "bit (0x1800 :: u64) k \<longleftrightarrow> k = 11 \<or> k = 12"
    "bit (0x122 :: u64) k \<longleftrightarrow> k = 1 \<or> k = 5 \<or> k = 8" "bit (0x222 :: u64) k \<longleftrightarrow> k = 1 \<or> k = 5 \<or> k = 9"
    by (simp_all only: bit_or_iff p)
qed

lemma status_tests:
  "(w :: u64) AND 0x2 = 0 \<longleftrightarrow> \<not> bit w 1" "w AND 0x8 = 0 \<longleftrightarrow> \<not> bit w 3" "w AND 0x20 = 0 \<longleftrightarrow> \<not> bit w 5"
  "w AND 0x80 = 0 \<longleftrightarrow> \<not> bit w 7" "w AND 0x100 = 0 \<longleftrightarrow> \<not> bit w 8"
  using and_exp_eq_0_iff_not_bit [of w 1] and_exp_eq_0_iff_not_bit [of w 3] and_exp_eq_0_iff_not_bit [of w 5]
    and_exp_eq_0_iff_not_bit [of w 7] and_exp_eq_0_iff_not_bit [of w 8] by simp_all

text \<open>What trap entry and trap return make of the status register, bit by bit.\<close>

lemma enter_m_csrs:
  "fst (enter_m c v t) = csr_get (csrs c) MTVEC AND NOT 0b11"
  "mode (snd (enter_m c v t)) = PRIV_M" "csr_get (csrs (snd (enter_m c v t))) MEPC = pc c"
  "csr_get (csrs (snd (enter_m c v t))) MCAUSE = v" "csr_get (csrs (snd (enter_m c v t))) MTVAL = t"
  by (simp_all add: enter_m_def Let_def)

text \<open>Bit \<open>k\<close> of an expression built from masks, without evaluating the complements.\<close>

lemma u64_bits:
  fixes v w :: u64
  shows "bit (v OR w) k \<longleftrightarrow> bit v k \<or> bit w k"
    "bit (v AND NOT w) k \<longleftrightarrow> bit v k \<and> \<not> bit w k" "bit (if b then v else 0) k \<longleftrightarrow> b \<and> bit v k"
  by (auto simp: bit_simps dest: bit_imp_le_length)

lemmas status_simps = u64_bits status_literals

lemma mode_bits:
  assumes "(md :: u8) < 4"
  shows "bit (push_bit 11 (ucast md) :: u64) k \<longleftrightarrow> k = 11 \<and> bit md 0 \<or> k = 12 \<and> bit md 1"
proof -
  have "\<not> bit md j" if "2 \<le> j" for j using not_bit_above [of md 2 j] assms that by simp
  moreover have "k - 11 = 0 \<or> k - 11 = 1 \<or> 2 \<le> k - 11" by linarith
  ultimately show ?thesis by (auto simp: bit_simps)
qed

lemma enter_m_status:
  assumes "mode c < 4"
  shows "bit (csr_get (csrs (snd (enter_m c v t))) MSTATUS) k \<longleftrightarrow>
    (if k = 3 then False else if k = 7 then bit (csr_get (csrs c) MSTATUS) 3
     else if k = 11 then bit (mode c) 0 else if k = 12 then bit (mode c) 1 else bit (csr_get (csrs c) MSTATUS) k)"
proof -
  let ?m = "csr_get (csrs c) MSTATUS"
  have e: "csr_get (csrs (snd (enter_m c v t))) MSTATUS =
     ((((?m AND NOT MSTATUS_MPIE) OR (if bit ?m 3 then MSTATUS_MPIE else 0)) AND NOT MSTATUS_MIE)
        AND NOT MSTATUS_MPP) OR push_bit 11 (ucast (mode c))"
    by (simp add: enter_m_def Let_def status_tests)
  show ?thesis unfolding e by (simp only: status_simps mode_bits [OF assms]) auto
qed

lemma enter_s_csrs:
  "fst (enter_s c v t) = csr_get (csrs c) STVEC AND NOT 0b11"
  "mode (snd (enter_s c v t)) = PRIV_S" "csr_get (csrs (snd (enter_s c v t))) SEPC = pc c"
  "csr_get (csrs (snd (enter_s c v t))) SCAUSE = v" "csr_get (csrs (snd (enter_s c v t))) STVAL = t"
  by (simp_all add: enter_s_def Let_def)

lemma enter_s_status:
  "bit (csr_get (csrs (snd (enter_s c v t))) MSTATUS) k \<longleftrightarrow>
    (if k = 1 then False else if k = 5 then bit (csr_get (csrs c) MSTATUS) 1
     else if k = 8 then mode c = PRIV_S else bit (csr_get (csrs c) MSTATUS) k)"
proof -
  let ?m = "csr_get (csrs c) MSTATUS"
  have e: "csr_get (csrs (snd (enter_s c v t))) MSTATUS =
     ((((?m AND NOT MSTATUS_SPIE) OR (if bit ?m 1 then MSTATUS_SPIE else 0)) AND NOT MSTATUS_SIE)
        AND NOT MSTATUS_SPP) OR (if mode c = PRIV_S then MSTATUS_SPP else 0)"
    by (simp add: enter_s_def Let_def status_tests)
  show ?thesis unfolding e by (simp only: status_simps) auto
qed

section \<open>Aliased CSRs\<close>

lemma masked_merge: "((b AND NOT m) OR (v AND m)) AND m = v AND (m :: u64)"
  by (rule bit_word_eqI) (auto simp: bit_simps)

lemma low12_self: "(x :: u32) < 0x1000 \<Longrightarrow> x AND 0xfff = x"
  using take_bit_below [of x 12] by (simp add: mask_literals)

text \<open>
  The privileged architecture's table of shared registers, by number: \<^verbatim>\<open>sstatus\<close> (0x100) is a view
  of \<^verbatim>\<open>mstatus\<close> (0x300), \<^verbatim>\<open>sie\<close> (0x104) of \<^verbatim>\<open>mie\<close> (0x304) and \<^verbatim>\<open>sip\<close> (0x144) of \<^verbatim>\<open>mip\<close> (0x344).
  \<^verbatim>\<open>sstatus\<close> shows SIE, SPIE and SPP (bits 1, 5, 8), the other two the supervisor software, timer
  and external interrupts (bits 1, 5, 9). Every other number is a register of its own.
\<close>

definition csr_cell :: "u32 \<Rightarrow> u32" where
  "csr_cell a = (if a = 0x100 then 0x300 else if a = 0x104 then 0x304 else if a = 0x144 then 0x344 else a)"

definition csr_mask :: "u32 \<Rightarrow> u64" where
  "csr_mask a = (if a = 0x100 then 2 ^ 1 OR 2 ^ 5 OR 2 ^ 8
     else if a = 0x104 \<or> a = 0x144 then 2 ^ 1 OR 2 ^ 5 OR 2 ^ 9 else - 1)"

lemma aliased_target_table:
  "aliased_target a = (if csr_cell a = a then None else Some (csr_cell a, csr_mask a))"
  by (simp add: aliased_target_def csr_cell_def csr_mask_def)

lemma csr_mask_own: "csr_cell a = a \<Longrightarrow> csr_mask a = - 1"
  by (auto simp: csr_cell_def csr_mask_def split: if_splits)

lemma csr_cell_low: "a < 0x1000 \<Longrightarrow> csr_cell a AND 0xfff = csr_cell a"
  by (auto simp: csr_cell_def low12_self)

lemma csr_read_cell: "csr_read c a = csr_get (csrs c) (csr_cell a) AND csr_mask a"
  by (auto simp: csr_read_def aliased_target_table csr_mask_own split: option.split)

lemma csr_write_table:
  "csr_write c a v = (if a = MHARTID then c else
     (let c' = cset (csr_cell a) ((csr_get (csrs c) (csr_cell a) AND NOT (csr_mask a)) OR (v AND csr_mask a)) c
      in if a = SATP then c'\<lparr>tlb := tlb_flush (tlb c')\<rparr> else c'))"
  using csr_mask_own [of a] by (auto simp: csr_write_def aliased_target_table Let_def)

lemma csr_write_cell:
  assumes "a < 0x1000" "x < 0x1000"
  shows "csr_get (csrs (csr_write c a v)) (csr_cell x) =
    (if a \<noteq> MHARTID \<and> csr_cell x = csr_cell a
     then (csr_get (csrs c) (csr_cell a) AND NOT (csr_mask a)) OR (v AND csr_mask a)
     else csr_get (csrs c) (csr_cell x))"
proof -
  have "csrs (csr_write c a v) = (if a = MHARTID then csrs c else csr_insert (csrs c) (csr_cell a)
      ((csr_get (csrs c) (csr_cell a) AND NOT (csr_mask a)) OR (v AND csr_mask a)))"
    by (simp add: csr_write_table Let_def cset_def)
  then show ?thesis
    using csr_cell_low [OF assms(1)] csr_cell_low [OF assms(2)] by (simp add: csr_get_insert)
qed

text \<open>
  C26: the CSR views. Every 12-bit CSR number names a cell of the file and a mask of the bits it
  shows: itself and all bits, except that \<^verbatim>\<open>sstatus\<close> shows bits 1, 5 and 8 of \<^verbatim>\<open>mstatus\<close>, and \<^verbatim>\<open>sie\<close>
  and \<^verbatim>\<open>sip\<close> show bits 1, 5 and 9 of \<^verbatim>\<open>mie\<close> and \<^verbatim>\<open>mip\<close>. A read gives the cell under the mask. A
  write through any number but \<^verbatim>\<open>mhartid\<close> changes exactly the bits it shows:
  reading the same number gives the written value under its mask, the hidden bits of the cell
  stay, every number with another cell reads as before, and a write to \<^verbatim>\<open>mhartid\<close> changes nothing.
\<close>

theorem csr_views:
  assumes "a < 0x1000" "x < 0x1000"
  shows "csr_read c x = csr_get (csrs c) (csr_cell x) AND csr_mask x
    \<and> csr_read (csr_write c MHARTID v) x = csr_read c x
    \<and> (a \<noteq> MHARTID \<longrightarrow> csr_read (csr_write c a v) a = v AND csr_mask a
         \<and> csr_get (csrs (csr_write c a v)) (csr_cell a) AND NOT (csr_mask a)
             = csr_get (csrs c) (csr_cell a) AND NOT (csr_mask a))
    \<and> (csr_cell x \<noteq> csr_cell a \<longrightarrow> csr_read (csr_write c a v) x = csr_read c x)
    \<and> (a \<noteq> MHARTID \<and> csr_cell x = csr_cell a \<longrightarrow>
         csr_read (csr_write c a v) x = (csr_read c x AND NOT (csr_mask a)) OR (v AND csr_mask a AND csr_mask x))"
proof -
  have m: "((b AND NOT m) OR (v AND m)) AND NOT m = b AND NOT m" for b m :: u64
    by (rule bit_word_eqI) (auto simp: bit_simps)
  have x: "((b AND NOT m) OR (v AND m)) AND n = ((b AND n) AND NOT m) OR (v AND m AND n)" for b m n :: u64
    by (rule bit_word_eqI) (auto simp: bit_simps)
  have "csr_write c MHARTID v = c" by (simp add: csr_write_def)
  then show ?thesis
    unfolding csr_read_cell by (simp add: csr_write_cell assms masked_merge m x)
qed

theorem csr_views_witness:
  "csr_read (csr_write (cpu_new 0) 0x100 0xffffffffffffffff) 0x100 = 0x122
   \<and> csr_read (csr_write (cpu_new 0) 0x100 0xffffffffffffffff) 0x300 = 0x000a00000122
   \<and> csr_read (csr_write (cpu_new 0) 0x344 0xaaaaaaaa) 0x144 = 0x222"
  using csr_views [of "0x100" "0x300" "cpu_new 0" "0xffffffffffffffff"]
    csr_views [of "0x344" "0x144" "cpu_new 0" "0xaaaaaaaa"]
  by (simp add: csr_mask_def csr_cell_def cpu_new_csrs)

section \<open>Delegation\<close>

lemma wshr_test: "n < 64 \<Longrightarrow> wshr (w :: u64) n AND 1 \<noteq> 0 \<longleftrightarrow> bit w n"
  by (simp add: wshr_def and_literal_bit bit_simps)

lemma delegatable_bits: "bit MIDELEG_DELEGATABLE_MASK k \<longleftrightarrow> k < 64 \<and> k \<noteq> 3 \<and> k \<noteq> 7 \<and> k \<noteq> 11"
proof -
  have e: "MIDELEG_DELEGATABLE_MASK = NOT (2 ^ 3 OR 2 ^ 7 OR 2 ^ 11)"
    by (simp add: MIDELEG_DELEGATABLE_MASK_def wshl_def)
  show ?thesis unfolding e by (simp only: bit_not_iff bit_or_iff bit_exp_iff possible_bit_word) auto
qed

lemma two_bit_modes:
  assumes "(md :: u8) < 4"
  shows "md = 0 \<or> md = 1 \<or> md = 2 \<or> md = 3"
proof -
  have "unat md < 4" using assms by (simp add: word_less_nat_alt)
  then have "unat md = 0 \<or> unat md = 1 \<or> unat md = 2 \<or> unat md = 3" by linarith
  then show ?thesis by (auto simp: word_unat_eq_iff)
qed

definition delegated :: "cpu \<Rightarrow> u64 \<Rightarrow> bool \<Rightarrow> bool" where
  "delegated c cause is_interrupt \<longleftrightarrow> mode c \<noteq> PRIV_M
     \<and> bit (csr_get (csrs c) (if is_interrupt then MIDELEG else MEDELEG)) (unat cause)
     \<and> (is_interrupt \<longrightarrow> unat cause \<notin> {3, 7, 11})"

lemma raise_trap_cases:
  assumes "unat cause < 64"
  shows "raise_trap c cause is_interrupt tval =
    (let v = (if is_interrupt then cause OR push_bit 63 1 else cause)
     in if delegated c cause is_interrupt then enter_s c v tval else enter_m c v tval)"
  using wshr_test [OF assms] assms
  by (auto simp: raise_trap_def delegated_def Let_def bit_and_iff delegatable_bits)

text \<open>
  C2: trap delivery. A trap with a cause below 64 (the code's causes are below 16), on a hart whose
  mode is a two-bit value, goes to supervisor mode exactly when the hart is below machine mode
  and the cause is delegated (a machine-level interrupt never is), to machine mode otherwise. The
  chosen mode's registers receive the interrupted pc, the cause (with the top bit for an
  interrupt) and the trap value; its interrupt enable moves to the previous-enable bit and is
  cleared, its previous-mode field receives the mode, every other status bit stays; execution
  continues at its vector with the two mode bits cleared. The privilege never drops, with one
  exception: mode 2, which the architecture reserves but an MRET can enter, and from which a
  delegated trap goes down to supervisor mode and records user mode as the previous one.
\<close>

theorem trap_delivery:
  assumes "unat cause < 64" "mode c < 4"
    and "raise_trap c cause is_interrupt tval = (target, c')"
  shows "(if delegated c cause is_interrupt
      then mode c' = PRIV_S \<and> target = csr_get (csrs c) STVEC AND NOT 0b11
        \<and> csr_get (csrs c') SEPC = pc c \<and> csr_get (csrs c') STVAL = tval
        \<and> csr_get (csrs c') SCAUSE = (if is_interrupt then cause OR push_bit 63 1 else cause)
        \<and> (\<forall>k. bit (csr_get (csrs c') MSTATUS) k =
            (if k = 1 then False else if k = 5 then bit (csr_get (csrs c) MSTATUS) 1
             else if k = 8 then mode c = PRIV_S else bit (csr_get (csrs c) MSTATUS) k))
      else mode c' = PRIV_M \<and> target = csr_get (csrs c) MTVEC AND NOT 0b11
        \<and> csr_get (csrs c') MEPC = pc c \<and> csr_get (csrs c') MTVAL = tval
        \<and> csr_get (csrs c') MCAUSE = (if is_interrupt then cause OR push_bit 63 1 else cause)
        \<and> (\<forall>k. bit (csr_get (csrs c') MSTATUS) k =
            (if k = 3 then False else if k = 7 then bit (csr_get (csrs c) MSTATUS) 3
             else if k = 11 then bit (mode c) 0 else if k = 12 then bit (mode c) 1
             else bit (csr_get (csrs c) MSTATUS) k)))
    \<and> (mode c \<le> mode c' \<longleftrightarrow> \<not> (mode c = 2 \<and> delegated c cause is_interrupt))"
proof -
  note M = enter_m_csrs enter_m_status [OF assms(2)] and S = enter_s_csrs enter_s_status
  show ?thesis
  proof (cases "delegated c cause is_interrupt")
    case True
    then have "(target, c') = enter_s c (if is_interrupt then cause OR push_bit 63 1 else cause) tval"
      using assms(3) raise_trap_cases [OF assms(1)] by (simp add: Let_def)
    then have "target = fst (enter_s c (if is_interrupt then cause OR push_bit 63 1 else cause) tval)"
      "c' = snd (enter_s c (if is_interrupt then cause OR push_bit 63 1 else cause) tval)"
      by (metis fst_conv, metis snd_conv)
    moreover have "mode c \<le> PRIV_S \<longleftrightarrow> mode c \<noteq> 2"
      using True two_bit_modes [OF assms(2)] by (auto simp: delegated_def word_le_nat_alt)
    ultimately show ?thesis using True by (simp only: S if_True simp_thms)
  next
    case False
    then have "(target, c') = enter_m c (if is_interrupt then cause OR push_bit 63 1 else cause) tval"
      using assms(3) raise_trap_cases [OF assms(1)] by (simp add: Let_def)
    then have "target = fst (enter_m c (if is_interrupt then cause OR push_bit 63 1 else cause) tval)"
      "c' = snd (enter_m c (if is_interrupt then cause OR push_bit 63 1 else cause) tval)"
      by (metis fst_conv, metis snd_conv)
    moreover have "mode c \<le> PRIV_M" using two_bit_modes [OF assms(2)] by auto
    ultimately show ?thesis using False by (simp only: M if_False simp_thms)
  qed
qed

theorem trap_delivery_witness:
  "\<exists>target c'. raise_trap ((cpu_new 0)\<lparr>mode := PRIV_S, pc := 0x80000000\<rparr>) 7 True 0 = (target, c')
     \<and> mode c' = PRIV_M \<and> csr_get (csrs c') MEPC = 0x80000000"
proof -
  obtain target c' where r: "raise_trap ((cpu_new 0)\<lparr>mode := PRIV_S, pc := 0x80000000\<rparr>) 7 True 0 = (target, c')"
    by fastforce
  have "\<not> delegated ((cpu_new 0)\<lparr>mode := PRIV_S, pc := 0x80000000\<rparr>) 7 True" by (simp add: delegated_def)
  with trap_delivery [OF _ _ r] r show ?thesis by simp
qed

section \<open>Which interrupt is taken\<close>

text \<open>
  A cause can be taken when it is pending and enabled and, in the mode it would be taken in, not
  masked: a delegated one is masked in supervisor mode by \<^verbatim>\<open>sie\<close>, any other in machine mode by \<^verbatim>\<open>mie\<close>.
\<close>

lemma deliverable_iff:
  assumes "unat cause < 64"
  shows "deliverable c pe ms cause \<longleftrightarrow> bit pe (unat cause)
    \<and> (if delegated c cause True then mode c = PRIV_S \<longrightarrow> bit ms 1 else mode c = PRIV_M \<longrightarrow> bit ms 3)"
  using wshr_test [OF assms] assms and_exp_eq_0_iff_not_bit [of pe "unat cause"]
  by (auto simp: deliverable_def delegated_def Let_def wshl_def bit_and_iff delegatable_bits status_tests)

lemma priority_loop_find:
  "priority_loop c pe ms causes =
     (case find (deliverable c pe ms) causes of
        None \<Rightarrow> (False, c)
      | Some cause \<Rightarrow> (True, (snd (raise_trap c cause True 0))\<lparr>pc := fst (raise_trap c cause True 0)\<rparr>))"
  by (induction causes) (auto split: prod.split)

text \<open>
  C5: interrupt sampling. With the timer and external lines read into \<^verbatim>\<open>mip\<close>, the hart takes the
  first cause of the priority list (machine external, software, timer, then supervisor external,
  software, timer) that is pending, enabled and not masked, as an interrupt trap to its vector;
  when there is none it only updates \<^verbatim>\<open>mip\<close>.
\<close>

theorem check_interrupt_takes_first:
  assumes "sampled_mip (heap b) c = Inr mip"
  shows "check_interrupt (c, b) =
    (let c1 = cset MIP mip c;
         ready = (\<lambda>cause. bit mip (unat cause) \<and> bit (csr_get (csrs c1) MIE) (unat cause)
           \<and> (if delegated c1 cause True then mode c = PRIV_S \<longrightarrow> bit (csr_get (csrs c1) MSTATUS) 1
              else mode c = PRIV_M \<longrightarrow> bit (csr_get (csrs c1) MSTATUS) 3))
     in case find ready [11, 3, 7, 9, 1, 5] of
          None \<Rightarrow> (Inr False, (c1, b))
        | Some cause \<Rightarrow> (Inr True, ((snd (raise_trap c1 cause True 0))\<lparr>pc := fst (raise_trap c1 cause True 0)\<rparr>, b)))"
proof -
  let ?c = "cset MIP mip c"
  let ?pe = "mip AND csr_get (csrs ?c) MIE" and ?ms = "csr_get (csrs ?c) MSTATUS"
  let ?ready = "\<lambda>cause. bit mip (unat cause) \<and> bit (csr_get (csrs ?c) MIE) (unat cause)
           \<and> (if delegated ?c cause True then mode c = PRIV_S \<longrightarrow> bit ?ms 1 else mode c = PRIV_M \<longrightarrow> bit ?ms 3)"
  have f: "find (deliverable ?c ?pe ?ms) PRIORITY = find ?ready [11, 3, 7, 9, 1, 5]"
    unfolding PRIORITY_def by (rule find_cong) (auto simp: deliverable_iff bit_and_iff)
  have z: "find ?ready [11, 3, 7, 9, 1, 5] = None" if "?pe = 0"
  proof -
    have "\<not> (bit mip k \<and> bit (csr_get (csrs ?c) MIE) k)" for k
      using that bit_and_iff [of mip "csr_get (csrs ?c) MIE" k] by simp
    then show ?thesis unfolding find_None_iff by blast
  qed
  have run: "check_interrupt (c, b) = (if ?pe = 0 then (Inr False, (?c, b))
      else (case priority_loop ?c ?pe ?ms PRIORITY of (taken, c2) \<Rightarrow> (Inr taken, (c2, b))))"
    unfolding check_interrupt_def Let_def by (simp add: assms)
  show ?thesis
  proof (cases "?pe = 0")
    case True
    then show ?thesis unfolding run Let_def by (simp only: z [OF True] simp_thms if_True option.case)
  next
    case False
    then show ?thesis
      unfolding run Let_def priority_loop_find f
      by (simp only: if_False) (cases "find ?ready [11, 3, 7, 9, 1, 5]"; simp only: option.case prod.case)
  qed
qed

theorem check_interrupt_takes_first_witness:
  "\<exists>c'. check_interrupt
       (cset MIP 0x202 (cset MIDELEG 0x222 ((cpu_new 0)\<lparr>mode := PRIV_U, pc := 0x40\<rparr>)), memory_bus [])
     = (Inr True, (c', memory_bus []))
     \<and> csr_get (csrs c') SCAUSE = 9 OR push_bit 63 1 \<and> csr_get (csrs c') SEPC = 0x40"
proof -
  let ?c = "cset MIP 0x202 (cset MIDELEG 0x222 ((cpu_new 0)\<lparr>mode := PRIV_U, pc := 0x40\<rparr>))"
  let ?d = "cset MIP 0x202 ?c"
  have "sampled_mip (heap (memory_bus [])) ?c = Inr 0x202"
    by (simp add: sampled_mip_def Let_def cpu_new_def)
  note C = check_interrupt_takes_first [OF this]
  have nine: "delegated ?d 9 True" by (simp add: delegated_def)
  have "check_interrupt (?c, memory_bus []) = (Inr True,
      ((snd (raise_trap ?d 9 True 0))\<lparr>pc := fst (raise_trap ?d 9 True 0)\<rparr>, memory_bus []))"
    using nine by (simp add: C Let_def cpu_new_csrs)
  moreover have "raise_trap ?d 9 True 0 = enter_s ?d (9 OR push_bit 63 1) 0"
    using nine by (simp add: raise_trap_cases Let_def)
  ultimately show ?thesis by (simp add: enter_s_csrs)
qed

end
