(* ===== verification/Mmu.thy ===== *)
theory Mmu
  imports Trap
begin

text \<open>
  \<^verbatim>\<open>mmu.rs\<close>: Sv39 translation with the direct-mapped TLB in front of the page-table walk, and
  the translated memory accesses \<open>Cpu::read\<close> and \<open>Cpu::write\<close> of \<^verbatim>\<open>cpu.rs\<close>. The walk loop
  counts the level down from 2 and errs below 0: it is the recursion \<open>walk\<close> on level + 1.
\<close>

abbreviation (input) MODE_BARE :: u64 where "MODE_BARE \<equiv> 0"
abbreviation (input) MODE_SV39 :: u64 where "MODE_SV39 \<equiv> 8"
abbreviation (input) PAGESIZE :: u64 where "PAGESIZE \<equiv> 0x1000"
abbreviation (input) PTE_SIZE :: u64 where "PTE_SIZE \<equiv> 8"
abbreviation (input) LEVELS :: nat where "LEVELS \<equiv> 3"
abbreviation (input) PTE_V :: u64 where "PTE_V \<equiv> 0x1"
abbreviation (input) PTE_R :: u64 where "PTE_R \<equiv> 0x2"
abbreviation (input) PTE_W :: u64 where "PTE_W \<equiv> 0x4"
abbreviation (input) PTE_X :: u64 where "PTE_X \<equiv> 0x8"
abbreviation (input) PPN_MASK :: u64 where "PPN_MASK \<equiv> 0xfffffffffff"

datatype access = Access_R | Access_W | Access_X

definition required_perm :: "access \<Rightarrow> u64" where
  "required_perm a = (case a of Access_R \<Rightarrow> PTE_R | Access_W \<Rightarrow> PTE_W | Access_X \<Rightarrow> PTE_X)"

definition vpn_fields :: "u64 \<Rightarrow> u64 list" where
  "vpn_fields va =
     [drop_bit 12 va AND 0x1ff, drop_bit 21 va AND 0x1ff, drop_bit 30 va AND 0x1ff]"

fun walk :: "u64 \<Rightarrow> nat \<Rightarrow> u64 \<Rightarrow> (bus, u64 \<times> nat) op" where
  "walk va 0 a = fail (Emu (Walk_exhausted va))"
| "walk va (Suc level) a =
     (let pte_addr = a + vpn_fields va ! level * PTE_SIZE in
      and_then (bus_read pte_addr (ucast PTE_SIZE)) (\<lambda>pte.
      if pte AND PTE_V = 0 then fail (Emu (Invalid_pte va level pte pte_addr))
      else if pte AND (PTE_R OR PTE_X) \<noteq> 0 then ok (pte, level)
      else if pte AND PTE_W \<noteq> 0 then fail (Emu (Reserved_pte va))
      else walk va level ((drop_bit 10 pte AND PPN_MASK) * PAGESIZE)))"

text \<open>The PPN of a leaf: for a superpage, the alignment check and the low fields from the VA.\<close>

definition va_low :: "u64 \<Rightarrow> nat \<Rightarrow> u64" where
  "va_low va level = fold (\<lambda>l acc. acc OR push_bit (9 * l) (vpn_fields va ! l)) [0..<level] 0"

definition leaf_ppn :: "u64 \<Rightarrow> u64 \<Rightarrow> nat \<Rightarrow> u64 res" where
  "leaf_ppn va pte level =
     (let ppn = drop_bit 10 pte AND PPN_MASK in
      if level > 0 then
        (let low_mask = push_bit (9 * level) 1 - 1 in
         if ppn AND low_mask \<noteq> 0 then error (Misaligned_superpage va)
         else Inr ((ppn AND NOT low_mask) OR va_low va level))
      else Inr ppn)"

text \<open>The TLB miss: walk, permission check, leaf PPN, and the TLB fill.\<close>

definition translate_miss :: "u64 \<Rightarrow> access \<Rightarrow> u64 \<Rightarrow> (machine, u64) op" where
  "translate_miss va acc satp =
     and_then (on_snd (walk va LEVELS ((satp AND PPN_MASK) * PAGESIZE))) (\<lambda>(pte, level).
     if pte AND required_perm acc = 0 then fail (Emu (Permission_denied va pte))
     else
       and_then (lift_res (leaf_ppn va pte level)) (\<lambda>ppn.
       and_then (on_cpu (\<lambda>c. c\<lparr>tlb := tlb_insert (drop_bit 12 va) ppn
                                      (pte AND (PTE_R OR PTE_W OR PTE_X)) (tlb c)\<rparr>)) (\<lambda>_.
       ok (push_bit 12 ppn OR (va AND 0xfff)))))"

definition translate_paged :: "u64 \<Rightarrow> access \<Rightarrow> u64 \<Rightarrow> (machine, u64) op" where
  "translate_paged va acc satp = (\<lambda>(c, b).
     let satp_mode = drop_bit 60 satp in
     if satp_mode \<noteq> MODE_SV39 then (error (Unsupported_satp_mode satp_mode), (c, b))
     else
       (case tlb_lookup (tlb c) (drop_bit 12 va) of
          Some (ppn, perm) \<Rightarrow>
            (if perm AND required_perm acc = 0
             then (error (Cached_permission_denied va perm), (c, b))
             else (Inr (push_bit 12 ppn OR (va AND 0xfff)), (c, b)))
        | None \<Rightarrow> translate_miss va acc satp (c, b)))"

definition translate :: "u64 \<Rightarrow> access \<Rightarrow> (machine, u64) op" where
  "translate va acc = (\<lambda>(c, b).
     let satp = csr_get (csrs c) SATP in
     if drop_bit 60 satp = MODE_BARE then (Inr va, (c, b))
     else translate_paged va acc satp (c, b))"

definition cpu_read :: "u64 \<Rightarrow> u8 \<Rightarrow> (machine, u64) op" where
  "cpu_read address sz =
     and_then (translate address Access_R) (\<lambda>pa. on_snd (bus_read pa sz))"

definition cpu_write :: "u64 \<Rightarrow> u8 \<Rightarrow> u64 \<Rightarrow> (machine, unit) op" where
  "cpu_write address sz v =
     and_then (translate address Access_W) (\<lambda>pa. on_snd (bus_write pa sz v))"

section \<open>Page tables\<close>

text \<open>
  The specification, in terms of the address and the entry's bits only. The table of level \<open>i\<close> is
  indexed with the nine bits of \<open>va\<close> from bit \<open>12 + 9 * i\<close>. A leaf entry \<open>pte\<close> of level \<open>l\<close> is
  reached for \<open>va\<close> from the table at \<open>a\<close> of level \<open>i\<close> along valid pointer entries (valid, none of
  R, W, X set), each naming the frame of the next table; a leaf has R or X set, and \<open>grants\<close> a
  read, write or fetch by its bit 1, 2 or 3.
\<close>

definition page_index :: "u64 \<Rightarrow> nat \<Rightarrow> u64" where
  "page_index va i = of_nat (unat va div 2 ^ (12 + 9 * i) mod 512)"

definition pte_at :: "bus \<Rightarrow> u64 \<Rightarrow> nat \<Rightarrow> u64 \<Rightarrow> u64 \<Rightarrow> bool" where
  "pte_at b va i a pte \<longleftrightarrow> fst (bus_read (a + page_index va i * 8) 8 b) = Inr pte \<and> bit pte 0"

inductive leaf_reached :: "bus \<Rightarrow> u64 \<Rightarrow> nat \<Rightarrow> u64 \<Rightarrow> u64 \<Rightarrow> nat \<Rightarrow> bool" for b va where
  leaf: "pte_at b va i a pte \<Longrightarrow> bit pte 1 \<or> bit pte 3 \<Longrightarrow> leaf_reached b va i a pte i"
| pointer: "pte_at b va (Suc i) a ptr \<Longrightarrow> \<not> bit ptr 1 \<Longrightarrow> \<not> bit ptr 2 \<Longrightarrow> \<not> bit ptr 3
    \<Longrightarrow> leaf_reached b va i (push_bit 12 (take_bit 44 (drop_bit 10 ptr))) pte l
    \<Longrightarrow> leaf_reached b va (Suc i) a pte l"

inductive_simps leaf_reached_0: "leaf_reached b va 0 a pte l"
inductive_simps leaf_reached_Suc: "leaf_reached b va (Suc i) a pte l"

definition grants :: "access \<Rightarrow> u64 \<Rightarrow> bool" where
  "grants acc pte = bit pte (case acc of Access_R \<Rightarrow> 1 | Access_W \<Rightarrow> 2 | Access_X \<Rightarrow> 3)"

text \<open>The code's shifts and masks select the specification's fields.\<close>

lemma page_index_bits: "page_index va i = take_bit 9 (drop_bit (12 + 9 * i) va)"
proof -
  have "unat va mod 2 ^ 64 = unat va" using unsigned_less [of va, where 'a = nat] by simp
  then have "unat (take_bit 9 (drop_bit (12 + 9 * i) va)) = unat va div 2 ^ (12 + 9 * i) mod 512"
    by (simp only: unsigned_take_bit_eq unsigned_drop_bit_eq) (simp add: take_bit_eq_mod drop_bit_eq_div)
  then show ?thesis unfolding page_index_def by (metis of_nat_unat ucast_id)
qed

lemma vpn_fields_index: "i < 3 \<Longrightarrow> vpn_fields va ! i = page_index va i"
  by (auto simp: less_Suc_eq numeral_3_eq_3 vpn_fields_def page_index_bits mask_literals)

lemma frame_base: "((w :: u64) AND PPN_MASK) * PAGESIZE = push_bit 12 (take_bit 44 w)"
  by (simp add: mask_literals push_bit_eq_mult mult.commute)

lemma pte_tests:
  "(w :: u64) AND 1 = 0 \<longleftrightarrow> \<not> bit w 0" "w AND 4 = 0 \<longleftrightarrow> \<not> bit w 2"
  "w AND 10 = 0 \<longleftrightarrow> \<not> bit w 1 \<and> \<not> bit w 3"
proof -
  show "w AND 1 = 0 \<longleftrightarrow> \<not> bit w 0" "w AND 4 = 0 \<longleftrightarrow> \<not> bit w 2"
    using and_exp_eq_0_iff_not_bit [of w 0] and_exp_eq_0_iff_not_bit [of w 2] by simp_all
  have "(10 :: u64) = 2 ^ 1 OR 2 ^ 3" by simp
  then have "w AND 10 = (w AND 2 ^ 1) OR (w AND 2 ^ 3)" by (simp only: bit.conj_disj_distrib)
  then show "w AND 10 = 0 \<longleftrightarrow> \<not> bit w 1 \<and> \<not> bit w 3"
    by (simp only: or_eq_0_iff and_exp_eq_0_iff_not_bit)
qed

lemma required_grants: "w AND required_perm acc = 0 \<longleftrightarrow> \<not> grants acc w"
  using and_exp_eq_0_iff_not_bit [of w 1] and_exp_eq_0_iff_not_bit [of w 2] and_exp_eq_0_iff_not_bit [of w 3]
  by (cases acc) (simp_all add: required_perm_def grants_def)

lemma grants_perm: "grants acc (w AND (PTE_R OR PTE_W OR PTE_X)) = grants acc w"
  by (cases acc) (simp_all add: grants_def bit_and_iff)

lemma bus_read_8: obtains r where "bus_read x 8 b = (r, b)"
proof
  have "pure_op (bus_read x 8)" by (rule bus_read_pure) simp
  then show "bus_read x 8 b = (fst (bus_read x 8 b), b)" by (simp add: pure_op_def prod_eq_iff)
qed

lemma walk_Suc:
  "walk va (Suc i) a b =
     (case fst (bus_read (a + vpn_fields va ! i * PTE_SIZE) 8 b) of
        Inl e \<Rightarrow> (Inl e, b)
      | Inr pte \<Rightarrow>
          if \<not> bit pte 0 then (error (Invalid_pte va i pte (a + vpn_fields va ! i * PTE_SIZE)), b)
          else if bit pte 1 \<or> bit pte 3 then (Inr (pte, i), b)
          else if bit pte 2 then (error (Reserved_pte va), b)
          else walk va i ((drop_bit 10 pte AND PPN_MASK) * PAGESIZE) b)"
proof -
  obtain r where "bus_read (a + vpn_fields va ! i * PTE_SIZE) 8 b = (r, b)" by (rule bus_read_8)
  then show ?thesis
    by (cases r) (simp_all add: and_then_def fail_def ok_def error_def pte_tests Let_def)
qed

declare walk.simps(2) [simp del]

lemma walk_pure: "snd (walk va n a b) = b"
  by (induction n arbitrary: a) (simp_all add: fail_def walk_Suc split: sum.split)

lemma walk_leaf_iff:
  assumes "i < 3"
  shows "fst (walk va (Suc i) a b) = Inr (pte, l) \<longleftrightarrow> leaf_reached b va i a pte l"
  using assms
proof (induction i arbitrary: a)
  case 0
  show ?case
    by (auto simp: walk_Suc vpn_fields_index leaf_reached_0 pte_at_def error_def fail_def split: sum.split)
next
  case (Suc i)
  then have IH: "fst (walk va (Suc i) x b) = Inr (pte, l) \<longleftrightarrow> leaf_reached b va i x pte l" for x by simp
  show ?case
    unfolding walk_Suc [of va "Suc i"] leaf_reached_Suc vpn_fields_index [OF Suc.prems] frame_base
    by (auto simp: IH pte_at_def error_def split: sum.split)
qed

text \<open>
  C20: the page-table walk. Started at any of the three levels, the walk never changes memory; it
  returns a leaf entry and its level exactly when that leaf is reached along valid pointer entries,
  with each table indexed by its nine bits of the address; and when there is no such leaf it
  returns an error.
\<close>

theorem walk_finds_leaf:
  assumes "i < 3"
  shows "snd (walk va (Suc i) a b) = b
    \<and> (\<forall>pte l. fst (walk va (Suc i) a b) = Inr (pte, l) \<longleftrightarrow> leaf_reached b va i a pte l)
    \<and> ((\<exists>e. fst (walk va (Suc i) a b) = Inl e) \<longleftrightarrow> (\<nexists>pte l. leaf_reached b va i a pte l))"
proof -
  have "(\<exists>e. r = Inl e) \<longleftrightarrow> (\<nexists>pte l. r = Inr (pte, l))" for r :: "(u64 \<times> nat) res"
    by (cases r) auto
  then show ?thesis by (simp only: walk_pure walk_leaf_iff [OF assms] simp_thms)
qed

section \<open>The physical address\<close>

lemma va_low_values:
  "va_low va 0 = 0" "va_low va 1 = take_bit 9 (drop_bit 12 va)" "va_low va 2 = take_bit 18 (drop_bit 12 va)"
proof -
  show "va_low va 0 = 0" "va_low va 1 = take_bit 9 (drop_bit 12 va)"
    by (simp_all add: va_low_def vpn_fields_def mask_literals)
  have "va_low va 2 = take_bit 9 (drop_bit 12 va) OR push_bit 9 (take_bit 9 (drop_bit 21 va))"
    by (simp add: va_low_def vpn_fields_def mask_literals numeral_2_eq_2)
  also have "\<dots> = take_bit 18 (drop_bit 12 va)"
    by (rule bit_word_eqI) (auto simp: bit_simps not_less)
  finally show "va_low va 2 = take_bit 18 (drop_bit 12 va)" .
qed

lemma va_low_eq: "level < 3 \<Longrightarrow> va_low va level = take_bit (9 * level) (drop_bit 12 va)"
  using va_low_values [of va] by (auto simp: less_Suc_eq numeral_3_eq_3 numeral_2_eq_2)

lemma leaf_ppn_Inr:
  assumes "level < 3" "leaf_ppn va pte level = Inr ppn"
  shows "ppn = take_bit 44 (drop_bit 10 pte) OR take_bit (9 * level) (drop_bit 12 va)"
    "take_bit (9 * level) (drop_bit 10 pte) = 0"
proof -
  let ?p = "take_bit 44 (drop_bit 10 pte)"
  have "?p AND mask (9 * level) = 0 \<and> ppn = ?p OR take_bit (9 * level) (drop_bit 12 va)"
  proof (cases "level = 0")
    case True
    then show ?thesis using assms(2) by (simp add: leaf_ppn_def mask_literals)
  next
    case False
    then have z: "?p AND mask (9 * level) = 0" and p: "ppn = (?p AND NOT (mask (9 * level))) OR va_low va level"
      using assms(2) by (auto simp: leaf_ppn_def mask_literals error_def Let_def simp flip: mask_eq_exp_minus_1 split: if_splits)
    have "?p AND NOT (mask (9 * level)) = (?p AND NOT (mask (9 * level))) OR (?p AND mask (9 * level))"
      using z by simp
    also have "\<dots> = ?p" by (rule bit_word_eqI) (auto simp: bit_simps)
    finally show ?thesis using z p va_low_eq [OF assms(1)] by simp
  qed
  moreover have "take_bit (9 * level) (drop_bit 10 pte) = ?p AND mask (9 * level)"
    using assms(1) by (intro bit_word_eqI) (auto simp: bit_simps)
  ultimately show "ppn = ?p OR take_bit (9 * level) (drop_bit 12 va)"
    "take_bit (9 * level) (drop_bit 10 pte) = 0" by simp_all
qed

lemma join_offset:
  "(push_bit 12 p OR push_bit 12 (take_bit n (drop_bit 12 va))) OR take_bit 12 va
     = push_bit 12 p OR take_bit (12 + n) (va :: u64)"
  by (rule bit_word_eqI) (auto simp: bit_simps not_le)

lemma leaf_level: "leaf_reached b va i a pte l \<Longrightarrow> l \<le> i"
  by (induction rule: leaf_reached.induct) simp_all

lemma leaf_ppn_aligned:
  assumes "level < 3"
  shows "(\<exists>ppn. leaf_ppn va pte level = Inr ppn) \<longleftrightarrow> take_bit (9 * level) (drop_bit 10 pte) = 0"
proof -
  have "take_bit (9 * level) (drop_bit 10 pte) = take_bit 44 (drop_bit 10 pte) AND mask (9 * level)"
    using assms by (intro bit_word_eqI) (auto simp: bit_simps)
  then show ?thesis
    by (auto simp: leaf_ppn_def mask_literals error_def Let_def simp flip: mask_eq_exp_minus_1)
qed

lemma leaf_ppn_value:
  assumes "level < 3"
  shows "leaf_ppn va pte level =
    (if take_bit (9 * level) (drop_bit 10 pte) = 0
     then Inr (take_bit 44 (drop_bit 10 pte) OR take_bit (9 * level) (drop_bit 12 va))
     else error (Misaligned_superpage va))"
proof (cases "take_bit (9 * level) (drop_bit 10 pte) = 0")
  case True
  then obtain ppn where "leaf_ppn va pte level = Inr ppn" using leaf_ppn_aligned [OF assms] by blast
  with leaf_ppn_Inr(1) [OF assms this] True show ?thesis by simp
next
  case False
  then have "\<nexists>ppn. leaf_ppn va pte level = Inr ppn" using leaf_ppn_aligned [OF assms] by blast
  with False show ?thesis by (auto simp: leaf_ppn_def Let_def split: if_splits)
qed

section \<open>What the page tables say\<close>

text \<open>
  The address space of \<^verbatim>\<open>satp\<close>: page \<open>vpn\<close> has frame \<open>p\<close> and permission bits \<open>q\<close> (\<open>page_maps\<close>), and
  \<open>va\<close> is translated to \<open>pa\<close> for an access (\<open>sv39\<close>), when the table at the frame in the low 44 bits
  of \<^verbatim>\<open>satp\<close> leads to a leaf of level \<open>l\<close> whose frame is aligned to its \<open>9 * l\<close> low bits, which come
  from the address instead.
\<close>

definition page_maps :: "bus \<Rightarrow> u64 \<Rightarrow> u64 \<Rightarrow> u64 \<Rightarrow> u64 \<Rightarrow> bool" where
  "page_maps b satp vpn p q \<longleftrightarrow>
     (\<exists>pte l. leaf_reached b (push_bit 12 vpn) 2 (push_bit 12 (take_bit 44 satp)) pte l
        \<and> take_bit (9 * l) (drop_bit 10 pte) = 0
        \<and> p = take_bit 44 (drop_bit 10 pte) OR take_bit (9 * l) vpn \<and> q = pte AND 0b1110)"

definition sv39 :: "bus \<Rightarrow> u64 \<Rightarrow> u64 \<Rightarrow> access \<Rightarrow> u64 \<Rightarrow> bool" where
  "sv39 b satp va acc pa \<longleftrightarrow>
     (\<exists>pte l. leaf_reached b va 2 (push_bit 12 (take_bit 44 satp)) pte l
        \<and> grants acc pte \<and> take_bit (9 * l) (drop_bit 10 pte) = 0
        \<and> pa = push_bit 12 (take_bit 44 (drop_bit 10 pte)) OR take_bit (12 + 9 * l) va)"

lemma walk_root_iff:
  "fst (walk va LEVELS ((satp AND PPN_MASK) * PAGESIZE) b) = Inr (pte, l)
     \<longleftrightarrow> leaf_reached b va 2 (push_bit 12 (take_bit 44 satp)) pte l"
  using walk_leaf_iff [of 2 va "push_bit 12 (take_bit 44 satp)" b pte l]
  by (simp add: frame_base numeral_3_eq_3 numeral_2_eq_2)

lemma leaf_unique:
  "leaf_reached b va 2 a pte l \<Longrightarrow> leaf_reached b va 2 a pte' l' \<Longrightarrow> pte' = pte \<and> l' = l"
  by (simp flip: walk_leaf_iff)

lemma leaf_level_2: "leaf_reached b va 2 a pte l \<Longrightarrow> l < 3"
  using leaf_level [of b va 2 a pte l] by simp

text \<open>The page offset does not matter to the walk.\<close>

lemma leaf_reached_index:
  "leaf_reached b va i a pte l \<Longrightarrow> page_index va' = page_index va \<Longrightarrow> leaf_reached b va' i a pte l"
  by (induction rule: leaf_reached.induct) (auto simp: pte_at_def intro: leaf_reached.intros)

lemma page_index_page: "page_index (push_bit 12 (drop_bit 12 va)) = page_index va"
proof
  fix i
  have "drop_bit (12 + 9 * i) (push_bit 12 (drop_bit 12 va)) = drop_bit (12 + 9 * i) va"
    by (rule bit_word_eqI) (auto simp: bit_simps ac_simps dest: bit_imp_le_length)
  then show "page_index (push_bit 12 (drop_bit 12 va)) i = page_index va i" by (simp add: page_index_bits)
qed

lemma leaf_reached_page:
  "leaf_reached b (push_bit 12 (drop_bit 12 va)) i a pte l \<longleftrightarrow> leaf_reached b va i a pte l"
  using leaf_reached_index page_index_page by metis

lemma page_maps_leaf:
  assumes "leaf_reached b va 2 (push_bit 12 (take_bit 44 satp)) pte l"
  shows "page_maps b satp (drop_bit 12 va) p q \<longleftrightarrow> take_bit (9 * l) (drop_bit 10 pte) = 0
    \<and> p = take_bit 44 (drop_bit 10 pte) OR take_bit (9 * l) (drop_bit 12 va) \<and> q = pte AND 0b1110"
  unfolding page_maps_def leaf_reached_page using assms leaf_unique [OF assms] by blast

lemma sv39_leaf:
  assumes "leaf_reached b va 2 (push_bit 12 (take_bit 44 satp)) pte l"
  shows "sv39 b satp va acc pa \<longleftrightarrow> grants acc pte \<and> take_bit (9 * l) (drop_bit 10 pte) = 0
    \<and> pa = push_bit 12 (take_bit 44 (drop_bit 10 pte)) OR take_bit (12 + 9 * l) va"
  unfolding sv39_def using assms leaf_unique [OF assms] by blast

lemma sv39_page:
  assumes "page_maps b satp (drop_bit 12 va) p q"
  shows "sv39 b satp va acc pa \<longleftrightarrow> grants acc q \<and> pa = push_bit 12 p OR (va AND 0xfff)"
proof -
  obtain pte l where leaf: "leaf_reached b va 2 (push_bit 12 (take_bit 44 satp)) pte l"
    using assms unfolding page_maps_def leaf_reached_page by blast
  have q: "grants acc (pte AND 0b1110) = grants acc pte" using grants_perm [of acc pte] by simp
  from assms page_maps_leaf [OF leaf] show ?thesis
    unfolding sv39_leaf [OF leaf] by (simp add: mask_literals join_offset q)
qed

section \<open>The TLB is a cache of the page tables\<close>

definition tlb_coherent :: "machine \<Rightarrow> bool" where
  "tlb_coherent m \<longleftrightarrow> (\<forall>vpn p q. tlb_lookup (tlb (fst m)) vpn = Some (p, q)
     \<longrightarrow> page_maps (snd m) (csr_get (csrs (fst m)) SATP) vpn p q)"

lemma tlb_coherent_iff:
  "tlb_coherent (c, b) \<longleftrightarrow> tlb.coherent (page_maps b (csr_get (csrs c) SATP)) (tlb c)"
  by (simp add: tlb_coherent_def tlb.coherent_def)

text \<open>A miss walks, and on success fills the TLB with what the page tables say.\<close>

lemma translate_miss_walk:
  "translate_miss va acc satp (c, b) =
     (case fst (walk va LEVELS ((satp AND PPN_MASK) * PAGESIZE) b) of
        Inl e \<Rightarrow> (Inl e, (c, b))
      | Inr (pte, level) \<Rightarrow>
          if \<not> grants acc pte then (error (Permission_denied va pte), (c, b))
          else (case leaf_ppn va pte level of
                  Inl e \<Rightarrow> (Inl e, (c, b))
                | Inr ppn \<Rightarrow> (Inr (push_bit 12 ppn OR (va AND 0xfff)),
                    (c\<lparr>tlb := tlb_insert (drop_bit 12 va) ppn (pte AND (PTE_R OR PTE_W OR PTE_X)) (tlb c)\<rparr>, b))))"
proof -
  obtain r where r: "walk va LEVELS ((satp AND PPN_MASK) * PAGESIZE) b = (r, b)"
    using walk_pure by (metis prod.collapse)
  show ?thesis
    by (cases r) (auto simp: translate_miss_def and_then_def on_snd_def r fail_def ok_def lift_res_def
        on_cpu_def error_def required_grants split: sum.split)
qed

lemma translate_miss_leaf:
  assumes "leaf_reached b va 2 (push_bit 12 (take_bit 44 satp)) pte l"
  shows "translate_miss va acc satp (c, b) =
    (if \<not> grants acc pte then (error (Permission_denied va pte), (c, b))
     else if take_bit (9 * l) (drop_bit 10 pte) \<noteq> 0 then (error (Misaligned_superpage va), (c, b))
     else (Inr (push_bit 12 (take_bit 44 (drop_bit 10 pte)) OR take_bit (12 + 9 * l) va),
       (c\<lparr>tlb := tlb_insert (drop_bit 12 va) (take_bit 44 (drop_bit 10 pte) OR take_bit (9 * l) (drop_bit 12 va))
          (pte AND 0b1110) (tlb c)\<rparr>, b)))"
  using walk_root_iff [of va satp b pte l] assms
  by (simp add: translate_miss_walk leaf_ppn_value [OF leaf_level_2 [OF assms]] error_def mask_literals join_offset)

lemma translate_miss_no_leaf:
  assumes "\<nexists>pte l. leaf_reached b va 2 (push_bit 12 (take_bit 44 satp)) pte l"
  shows "\<exists>e. translate_miss va acc satp (c, b) = (Inl e, (c, b))"
  using assms unfolding walk_root_iff [symmetric] translate_miss_walk by (auto split: sum.split)

lemma translate_miss_sv39:
  "fst (translate_miss va acc satp (c, b)) = Inr pa \<longleftrightarrow> sv39 b satp va acc pa"
proof (cases "\<exists>pte l. leaf_reached b va 2 (push_bit 12 (take_bit 44 satp)) pte l")
  case True
  then obtain pte l where leaf: "leaf_reached b va 2 (push_bit 12 (take_bit 44 satp)) pte l" by blast
  show ?thesis unfolding translate_miss_leaf [OF leaf] sv39_leaf [OF leaf] by (auto simp: error_def)
next
  case False
  then show ?thesis
    using translate_miss_no_leaf [OF False, of acc c] by (auto simp: sv39_def)
qed

lemma translate_miss_tlb:
  assumes "tlb_coherent (c, b)"
  shows "\<exists>t. snd (translate_miss va acc (csr_get (csrs c) SATP) (c, b)) = (c\<lparr>tlb := t\<rparr>, b)
    \<and> tlb_coherent (c\<lparr>tlb := t\<rparr>, b)"
proof (cases "\<exists>pa. fst (translate_miss va acc (csr_get (csrs c) SATP) (c, b)) = Inr pa")
  case True
  let ?satp = "csr_get (csrs c) SATP"
  from True obtain pte l where leaf: "leaf_reached b va 2 (push_bit 12 (take_bit 44 ?satp)) pte l"
    and g: "grants acc pte" "take_bit (9 * l) (drop_bit 10 pte) = 0"
    unfolding translate_miss_sv39 sv39_def by blast
  let ?p = "take_bit 44 (drop_bit 10 pte) OR take_bit (9 * l) (drop_bit 12 va)"
  let ?t = "tlb_insert (drop_bit 12 va) ?p (pte AND 0b1110) (tlb c)"
  have "page_maps b ?satp (drop_bit 12 va) ?p (pte AND 0b1110)" using page_maps_leaf [OF leaf] g by simp
  then have "tlb_coherent (c\<lparr>tlb := ?t\<rparr>, b)"
    using assms by (simp add: tlb_coherent_iff tlb.coherent_fill)
  then show ?thesis using g by (intro exI [of _ ?t]) (simp add: translate_miss_leaf [OF leaf])
next
  case False
  then have "snd (translate_miss va acc (csr_get (csrs c) SATP) (c, b)) = (c, b)"
    by (auto simp: translate_miss_walk split: sum.split if_splits)
  then show ?thesis using assms by (intro exI [of _ "tlb c"]) simp
qed

lemma translate_sv39:
  assumes "tlb_coherent (c, b)" "drop_bit 60 (csr_get (csrs c) SATP) = MODE_SV39"
  shows "fst (translate va acc (c, b)) = Inr pa \<longleftrightarrow> sv39 b (csr_get (csrs c) SATP) va acc pa"
    "\<exists>t. snd (translate va acc (c, b)) = (c\<lparr>tlb := t\<rparr>, b) \<and> tlb_coherent (c\<lparr>tlb := t\<rparr>, b)"
proof -
  let ?satp = "csr_get (csrs c) SATP" and ?v = "drop_bit 12 va"
  have paged: "translate va acc (c, b) = translate_paged va acc ?satp (c, b)"
    using assms(2) by (simp add: translate_def Let_def)
  have "(fst (translate va acc (c, b)) = Inr pa \<longleftrightarrow> sv39 b ?satp va acc pa)
    \<and> (\<exists>t. snd (translate va acc (c, b)) = (c\<lparr>tlb := t\<rparr>, b) \<and> tlb_coherent (c\<lparr>tlb := t\<rparr>, b))"
  proof (cases "tlb_lookup (tlb c) ?v")
    case (Some e)
    obtain p q where e: "e = (p, q)" by fastforce
    then have maps: "page_maps b ?satp ?v p q" using assms(1) Some by (auto simp: tlb_coherent_def)
    have "fst (translate va acc (c, b)) = Inr pa \<longleftrightarrow> sv39 b ?satp va acc pa"
      using assms(2) Some e
      by (auto simp: paged translate_paged_def sv39_page [OF maps] required_grants error_def Let_def)
    moreover have "snd (translate va acc (c, b)) = (c, b)"
      using assms(2) Some e by (simp add: paged translate_paged_def Let_def)
    ultimately show ?thesis using assms(1) by (intro conjI exI [of _ "tlb c"]) simp_all
  next
    case None
    then have "translate va acc (c, b) = translate_miss va acc ?satp (c, b)"
      using assms(2) by (simp add: paged translate_paged_def Let_def)
    then show ?thesis using translate_miss_tlb [OF assms(1)] by (simp add: translate_miss_sv39)
  qed
  then show "fst (translate va acc (c, b)) = Inr pa \<longleftrightarrow> sv39 b ?satp va acc pa"
    "\<exists>t. snd (translate va acc (c, b)) = (c\<lparr>tlb := t\<rparr>, b) \<and> tlb_coherent (c\<lparr>tlb := t\<rparr>, b)" by blast+
qed

text \<open>
  C1: address translation. With paging on, a hart whose TLB agrees with the page tables translates
  exactly as Sv39 says: it succeeds with \<open>pa\<close> when the three-level tables reach an aligned leaf for
  \<open>va\<close> that has the bit of the access set (R, W or X) and \<open>pa\<close> is the leaf's frame with the low
  address bits, and faults otherwise, whether or not the page was cached. Translation changes
  nothing but the TLB, which still agrees afterwards. The specification \<open>sv39\<close> is stated over the
  bits of the address and of the entries, apart from the code's own tables and masks.
\<close>

theorem translate_refines_sv39:
  assumes "tlb_coherent (c, b)" "drop_bit 60 (csr_get (csrs c) SATP) = MODE_SV39"
  shows "(\<forall>pa. fst (translate va acc (c, b)) = Inr pa \<longleftrightarrow> sv39 b (csr_get (csrs c) SATP) va acc pa)
    \<and> (\<exists>t. snd (translate va acc (c, b)) = (c\<lparr>tlb := t\<rparr>, b) \<and> tlb_coherent (c\<lparr>tlb := t\<rparr>, b))"
  using translate_sv39 [OF assms] by blast

text \<open>
  C21: a TLB miss. When the tables of \<^verbatim>\<open>satp\<close> reach for \<open>va\<close> a leaf of level \<open>l\<close> (0 a page, 1 a
  megapage, 2 a gigapage), a miss is denied when the leaf lacks the bit of the access (1 for a read,
  2 for a write, 3 for a fetch), fails as misaligned when one of the low \<open>9 * l\<close> bits of its frame is
  set, and otherwise gives the leaf's frame with the low \<open>12 + 9 * l\<close> bits of \<open>va\<close> and caches the
  page with the frame of its 4 KiB and the leaf's three permission bits. When they reach no leaf it
  is an error. Nothing is cached on a failure, and memory never changes.
\<close>

theorem sv39_address:
  "(\<forall>pte l. leaf_reached b va 2 (push_bit 12 (take_bit 44 satp)) pte l \<longrightarrow>
     translate_miss va acc satp (c, b) =
       (if \<not> bit pte (case acc of Access_R \<Rightarrow> 1 | Access_W \<Rightarrow> 2 | Access_X \<Rightarrow> 3)
        then (error (Permission_denied va pte), (c, b))
        else if take_bit (9 * l) (drop_bit 10 pte) \<noteq> 0 then (error (Misaligned_superpage va), (c, b))
        else (Inr (push_bit 12 (take_bit 44 (drop_bit 10 pte)) OR take_bit (12 + 9 * l) va),
          (c\<lparr>tlb := tlb_insert (drop_bit 12 va)
               (take_bit 44 (drop_bit 10 pte) OR take_bit (9 * l) (drop_bit 12 va))
               (pte AND 0b1110) (tlb c)\<rparr>, b))))
   \<and> ((\<nexists>pte l. leaf_reached b va 2 (push_bit 12 (take_bit 44 satp)) pte l)
      \<longrightarrow> (\<exists>e. translate_miss va acc satp (c, b) = (Inl e, (c, b))))"
  using translate_miss_leaf translate_miss_no_leaf by (simp add: grants_def)

section \<open>Keeping the TLB coherent\<close>

lemma flushed_coherent: "tlb_coherent (c\<lparr>tlb := tlb_flush t\<rparr>, b)"
  by (simp add: tlb_coherent_def tlb.cached_drop_all)

lemma satp_write_flushes: "tlb_coherent (csr_write c SATP v, b)"
  using flushed_coherent by (simp add: csr_write_def aliased_target_def)

text \<open>
  C36: what restores coherence. Writing \<^verbatim>\<open>satp\<close> leaves a TLB that agrees with the page tables of
  the new address space whatever it held before, and a hart fresh from reset has one too.
\<close>

theorem satp_write_coherent:
  "tlb_coherent (csr_write c SATP v, b) \<and> csr_get (csrs (csr_write c SATP v)) SATP = v
   \<and> tlb_coherent (cpu_new h, b)"
proof (intro conjI satp_write_flushes)
  show "tlb_coherent (cpu_new h, b)" by (simp add: tlb_coherent_def cpu_new_def)
qed (simp add: csr_write_def aliased_target_def)

text \<open>A hart in an address space whose first gigabyte is one page, mapped to itself by the entry at
  address 0.\<close>

definition gigapage_hart :: cpu where
  "gigapage_hart = csr_write (cpu_new 0) SATP (push_bit 60 8)"

definition gigapage_bus :: bus where
  "gigapage_bus = memory_bus [0xf, 0, 0, 0, 0, 0, 0, 0]"

lemma gigapage_satp: "csr_get (csrs gigapage_hart) SATP = push_bit 60 8"
  by (simp add: gigapage_hart_def csr_write_def aliased_target_def)

lemma gigapage_coherent: "tlb_coherent (gigapage_hart, b)"
  by (simp add: gigapage_hart_def satp_write_flushes)

lemma gigapage_leaf:
  assumes "page_index va 2 = 0"
  shows "leaf_reached gigapage_bus va 2 0 0xf 2"
proof (rule leaf_reached.leaf)
  show "pte_at gigapage_bus va 2 0 0xf"
    using assms unfolding pte_at_def gigapage_bus_def by (simp add: memory_bus_read)
qed simp

lemma gigapage_sv39: "page_index va 2 = 0 \<Longrightarrow> sv39 gigapage_bus (push_bit 60 8) va acc (take_bit 30 va)"
  using sv39_leaf [of gigapage_bus va "push_bit 60 8" "0xf" 2 acc] gigapage_leaf [of va]
  by (cases acc) (simp_all add: grants_def)

theorem walk_finds_leaf_witness: "fst (walk 0x1234 3 0 gigapage_bus) = Inr (0xf, 2)"
proof -
  have "leaf_reached gigapage_bus 0x1234 2 0 0xf 2" by (rule gigapage_leaf) (simp add: page_index_def)
  with walk_finds_leaf [of 2 "0x1234" 0 gigapage_bus] show ?thesis
    by (simp add: numeral_3_eq_3 numeral_2_eq_2)
qed

theorem sv39_address_witness:
  "fst (translate_miss 0x1234 Access_W (push_bit 60 8) (gigapage_hart, gigapage_bus)) = Inr 0x1234"
proof -
  have "leaf_reached gigapage_bus 0x1234 2 (push_bit 12 (take_bit 44 (push_bit 60 8))) 0xf 2"
    using gigapage_leaf [of "0x1234"] by (simp add: page_index_def)
  with sv39_address [of gigapage_bus "0x1234" "push_bit 60 8" Access_W gigapage_hart] show ?thesis by simp
qed

theorem translate_refines_sv39_witness:
  "fst (translate 0x1234 Access_R (gigapage_hart, gigapage_bus)) = Inr 0x1234"
  using translate_refines_sv39 [of gigapage_hart gigapage_bus "0x1234" Access_R]
    gigapage_sv39 [of "0x1234" Access_R]
  by (simp add: gigapage_satp gigapage_coherent page_index_def)

text \<open>
  C38: what breaks it. A store to a page table is visible to the cache: a hart with a coherent TLB
  can overwrite the entry it runs under and go on translating through the old one, until a flush.
\<close>

theorem stale_translation:
  "\<exists>c b c' b'. tlb_coherent (c, b) \<and> cpu_write 0 8 0 (c, b) = (Inr (), (c', b'))
     \<and> fst (translate 8 Access_R (c', b')) = Inr 8
     \<and> (\<nexists>pa. sv39 b' (csr_get (csrs c') SATP) 8 Access_R pa)
     \<and> fst (translate 8 Access_R (c'\<lparr>tlb := tlb_flush (tlb c')\<rparr>, b')) = error (Invalid_pte 8 2 0 0)"
proof -
  let ?t = "tlb_insert 0 0 0xe (tlb gigapage_hart)"
  let ?c = "gigapage_hart\<lparr>tlb := ?t\<rparr>" and ?b = "memory_bus [0, 0, 0, 0, 0, 0, 0, 0]"
  have leaf: "leaf_reached gigapage_bus 0 2 (push_bit 12 (take_bit 44 (push_bit 60 8))) 0xf 2"
    using gigapage_leaf [of 0] by (simp add: page_index_def)
  have miss: "tlb_lookup (tlb gigapage_hart) 0 = None"
    by (simp add: gigapage_hart_def csr_write_def aliased_target_def tlb.cached_drop_all)
  have tr: "translate 0 Access_W (gigapage_hart, gigapage_bus) = (Inr 0, (?c, gigapage_bus))"
    using translate_miss_leaf [OF leaf, of Access_W gigapage_hart]
    by (simp add: translate_def translate_paged_def gigapage_satp miss grants_def Let_def)
  have "bus_write 0 8 0 gigapage_bus = (Inr (), ?b)"
    by (simp add: gigapage_bus_def bus_write_def bus_write_with_def memory_bus_def contains_def checked_add_def
        on_field_eqs ram_write_def ram_store_def copy_from_slice_def)
  with tr have st: "cpu_write 0 8 0 (gigapage_hart, gigapage_bus) = (Inr (), (?c, ?b))"
    by (simp add: cpu_write_def and_then_def on_snd_def)
  have hit: "fst (translate 8 Access_R (?c, ?b)) = Inr 8"
    by (simp add: translate_def translate_paged_def gigapage_satp tlb.cached_fill required_perm_def Let_def)
  have inv: "fst (walk 8 3 0 ?b) = error (Invalid_pte 8 2 0 0)"
  proof -
    have "walk 8 3 0 ?b = walk 8 (Suc 2) 0 ?b" by simp
    then show ?thesis by (simp only: walk_Suc) (simp add: vpn_fields_def memory_bus_read)
  qed
  then have "\<nexists>pa. sv39 ?b (push_bit 60 8) 8 Access_R pa"
    using walk_root_iff [of 8 "push_bit 60 8" ?b] by (simp add: sv39_def error_def)
  moreover have "fst (translate 8 Access_R (?c\<lparr>tlb := tlb_flush ?t\<rparr>, ?b)) = error (Invalid_pte 8 2 0 0)"
    using inv by (simp add: translate_def translate_paged_def gigapage_satp tlb.cached_drop_all
        translate_miss_walk error_def Let_def)
  ultimately show ?thesis
    using gigapage_coherent [of gigapage_bus] st hit gigapage_satp
    by (intro exI [of _ gigapage_hart] exI [of _ gigapage_bus] exI [of _ ?c] exI [of _ ?b]) simp
qed

section \<open>Memory through virtual addresses\<close>

text \<open>A translation that succeeds leaves its page in the TLB, as the page tables have it.\<close>

lemma translate_caches:
  assumes "tlb_coherent (c, b)" "drop_bit 60 (csr_get (csrs c) SATP) = MODE_SV39"
    and "sv39 b (csr_get (csrs c) SATP) va acc pa"
  shows "\<exists>t p q. translate va acc (c, b) = (Inr pa, (c\<lparr>tlb := t\<rparr>, b)) \<and> tlb_coherent (c\<lparr>tlb := t\<rparr>, b)
    \<and> tlb_lookup t (drop_bit 12 va) = Some (p, q) \<and> page_maps b (csr_get (csrs c) SATP) (drop_bit 12 va) p q"
proof -
  let ?satp = "csr_get (csrs c) SATP" and ?v = "drop_bit 12 va"
  obtain t where t: "translate va acc (c, b) = (Inr pa, (c\<lparr>tlb := t\<rparr>, b))" "tlb_coherent (c\<lparr>tlb := t\<rparr>, b)"
    using translate_sv39 [OF assms(1,2), of va acc] assms(3) by (metis prod.collapse)
  have "tlb_lookup t ?v \<noteq> None"
  proof (cases "tlb_lookup (tlb c) ?v")
    case None
    have "translate va acc (c, b) = translate_miss va acc ?satp (c, b)"
      using assms(2) None by (simp add: translate_def translate_paged_def Let_def)
    moreover obtain pte l where leaf: "leaf_reached b va 2 (push_bit 12 (take_bit 44 ?satp)) pte l"
      and "grants acc pte" "take_bit (9 * l) (drop_bit 10 pte) = 0"
      using assms(3) unfolding sv39_def by blast
    ultimately have "c\<lparr>tlb := t\<rparr> = c\<lparr>tlb := tlb_insert ?v
        (take_bit 44 (drop_bit 10 pte) OR take_bit (9 * l) ?v) (pte AND 0b1110) (tlb c)\<rparr>"
      using t(1) translate_miss_leaf [OF leaf, of acc c] by simp
    from arg_cong [OF this, of tlb] show ?thesis by (simp add: tlb.cached_fill)
  next
    case (Some e)
    then have "snd (translate va acc (c, b)) = (c, b)"
      using assms(2) by (cases e) (simp add: translate_def translate_paged_def Let_def)
    with t(1) have "c\<lparr>tlb := t\<rparr> = c" by simp
    from arg_cong [OF this, of tlb] Some show ?thesis by simp
  qed
  then obtain p q where "tlb_lookup t ?v = Some (p, q)" by auto
  moreover from this t(2) have "page_maps b ?satp ?v p q" by (simp add: tlb_coherent_def)
  ultimately show ?thesis using t by blast
qed

text \<open>
  C31: memory through virtual addresses. On a hart with paging on and a TLB that agrees with its page
  tables, which map \<open>va\<close> to \<open>pa\<close> for writing and for reading, with \<open>pa\<close> in main memory: a store to \<open>va\<close>
  is the store to \<open>pa\<close>, changing nothing of the hart but its TLB, and loading \<open>va\<close> right after gives
  the stored value, truncated to the access size, even when the store hit the page tables
  themselves. Any other hart whose page tables, as the store left them, map some address of its own
  to \<open>pa\<close> for reading, and whose TLB agrees with them, loads the same value there.
\<close>

theorem virtual_store_load:
  assumes "tlb_coherent (c, b)" "drop_bit 60 (csr_get (csrs c) SATP) = MODE_SV39"
    and "sv39 b (csr_get (csrs c) SATP) va Access_W pa" "sv39 b (csr_get (csrs c) SATP) va Access_R pa"
    and "bus_ram_valid b pa n"
  shows "\<exists>t. cpu_write va n v (c, b) = (Inr (), (c\<lparr>tlb := t\<rparr>, snd (bus_write pa n v b)))
    \<and> cpu_read va n (c\<lparr>tlb := t\<rparr>, snd (bus_write pa n v b))
        = (Inr (take_bit (8 * unat n) v), (c\<lparr>tlb := t\<rparr>, snd (bus_write pa n v b)))
    \<and> (\<forall>c' va'. tlb_coherent (c', snd (bus_write pa n v b)) \<and> drop_bit 60 (csr_get (csrs c') SATP) = MODE_SV39
         \<and> sv39 (snd (bus_write pa n v b)) (csr_get (csrs c') SATP) va' Access_R pa
         \<longrightarrow> fst (cpu_read va' n (c', snd (bus_write pa n v b))) = Inr (take_bit (8 * unat n) v))"
proof -
  let ?satp = "csr_get (csrs c) SATP"
  define b' where "b' = snd (bus_write pa n v b)"
  have w: "bus_write pa n v b = (Inr (), b')" using bus_mem.write_eq [OF assms(5)] by (simp add: b'_def)
  have rd: "bus_read pa n b' = (Inr (take_bit (8 * unat n) v), b')"
    using bus_mem.write_then_read [OF assms(5), of v] w by (simp add: and_then_def)
  obtain t p q where t: "translate va Access_W (c, b) = (Inr pa, (c\<lparr>tlb := t\<rparr>, b))"
    "tlb_lookup t (drop_bit 12 va) = Some (p, q)" "page_maps b ?satp (drop_bit 12 va) p q"
    using translate_caches [OF assms(1-3)] by blast
  from sv39_page [OF t(3), of Access_R pa] assms(4)
  have "grants Access_R q" "push_bit 12 p OR (va AND 0xfff) = pa" by blast+
  then have "translate va Access_R (c\<lparr>tlb := t\<rparr>, b') = (Inr pa, (c\<lparr>tlb := t\<rparr>, b'))"
    using assms(2) t(2) by (simp add: translate_def translate_paged_def required_grants Let_def)
  then have "cpu_read va n (c\<lparr>tlb := t\<rparr>, b') = (Inr (take_bit (8 * unat n) v), (c\<lparr>tlb := t\<rparr>, b'))"
    using rd by (simp add: cpu_read_def and_then_def on_snd_def)
  moreover have "cpu_write va n v (c, b) = (Inr (), (c\<lparr>tlb := t\<rparr>, b'))"
    using t(1) w by (simp add: cpu_write_def and_then_def on_snd_def)
  moreover have "fst (cpu_read va' n (c', b')) = Inr (take_bit (8 * unat n) v)"
    if h: "tlb_coherent (c', b')" "drop_bit 60 (csr_get (csrs c') SATP) = MODE_SV39"
      "sv39 b' (csr_get (csrs c') SATP) va' Access_R pa" for c' va'
  proof -
    obtain u where "translate va' Access_R (c', b') = (Inr pa, (c'\<lparr>tlb := u\<rparr>, b'))"
      using translate_caches [OF h] by blast
    then show ?thesis using rd by (simp add: cpu_read_def and_then_def on_snd_def)
  qed
  ultimately show ?thesis unfolding b'_def [symmetric] by blast
qed

theorem virtual_store_load_witness:
  "\<exists>c' b'. cpu_write 4 2 0x12345 (gigapage_hart, gigapage_bus) = (Inr (), (c', b'))
     \<and> fst (cpu_read 4 2 (c', b')) = Inr 0x2345"
proof -
  have v: "bus_ram_valid gigapage_bus 4 2" unfolding gigapage_bus_def by (rule memory_bus_valid) simp_all
  have m: "sv39 gigapage_bus (push_bit 60 8) 4 acc 4" for acc
    using gigapage_sv39 [of 4 acc] by (simp add: page_index_def)
  have "sv39 gigapage_bus (csr_get (csrs gigapage_hart) SATP) 4 Access_W 4"
    "sv39 gigapage_bus (csr_get (csrs gigapage_hart) SATP) 4 Access_R 4"
    unfolding gigapage_satp by (rule m)+
  from virtual_store_load [OF gigapage_coherent _ this v, of "0x12345"] show ?thesis
    by (auto simp: gigapage_satp)
qed

end
