(* ===== verification/Decode.thy ===== *)
theory Decode
  imports Prelude
begin

text \<open>
  Decoding of 32-bit instruction words (\<^verbatim>\<open>decode.rs\<close>): the fixed fields and the five immediate
  encodings. Register numbers and other \<open>usize\<close> fields are naturals, the \<open>i64\<close> immediates are
  64-bit words read as two's complement.
\<close>

record instruction =
  i_value :: u32
  opcode :: u32
  rd :: nat
  rs1 :: nat
  rs2 :: nat
  funct3 :: u32
  funct7 :: u32
  imm_i :: i64
  imm_s :: i64
  imm_b :: i64
  imm_u :: i64
  imm_j :: i64
  shamt :: u32
  csr :: u32

definition sext :: "u32 \<Rightarrow> nat \<Rightarrow> i64" where
  "sext v bits =
     (let shift = 32 - bits in scast (signed_drop_bit shift (push_bit shift v) :: u32))"

definition instruction_new :: "u32 \<Rightarrow> instruction" where
  "instruction_new w =
     \<lparr>i_value = w,
      opcode = w AND 0x7f,
      rd = unat (drop_bit 7 w AND 0x1f),
      rs1 = unat (drop_bit 15 w AND 0x1f),
      rs2 = unat (drop_bit 20 w AND 0x1f),
      funct3 = drop_bit 12 w AND 0x7,
      funct7 = drop_bit 25 w AND 0x7f,
      imm_i = sext (drop_bit 20 w) 12,
      imm_s = sext (push_bit 5 (drop_bit 25 w) OR (drop_bit 7 w AND 0x1f)) 12,
      imm_b = sext (push_bit 12 (drop_bit 31 w AND 1)
                    OR push_bit 11 (drop_bit 7 w AND 1)
                    OR push_bit 5 (drop_bit 25 w AND 0x3f)
                    OR push_bit 1 (drop_bit 8 w AND 0xf)) 13,
      imm_u = scast (w AND 0xfffff000),
      imm_j = sext (push_bit 20 (drop_bit 31 w AND 1)
                    OR push_bit 12 (drop_bit 12 w AND 0xff)
                    OR push_bit 11 (drop_bit 20 w AND 1)
                    OR push_bit 1 (drop_bit 21 w AND 0x3ff)) 21,
      shamt = drop_bit 20 w AND 0x3f,
      csr = drop_bit 20 w AND 0xfff\<rparr>"

section \<open>Fields and immediates\<close>

lemma sext_eq: "0 < n \<Longrightarrow> n \<le> 32 \<Longrightarrow> sext v n = scast (signed_take_bit (n - 1) v)"
  using sign_extend_shifts [of n v] by (simp add: sext_def)

lemma sext_cong: "0 < n \<Longrightarrow> n \<le> 32 \<Longrightarrow> take_bit n x = take_bit n y \<Longrightarrow> sext x n = sext y n"
  using signed_take_bit_eq_iff_take_bit_eq [of "n - 1" x y] by (simp add: sext_eq)

lemma sext_in_range:
  "0 < n \<Longrightarrow> n \<le> 32 \<Longrightarrow> - (2 ^ (n - 1)) \<le> sint v \<Longrightarrow> sint v < 2 ^ (n - 1) \<Longrightarrow> sext v n = scast v"
  by (simp add: sext_eq signed_take_bit_range)

lemma sint_sext_bounds:
  assumes "0 < n" "n \<le> 32"
  shows "- (2 ^ (n - 1)) \<le> sint (sext v n)" "sint (sext v n) < 2 ^ (n - 1)"
  using assms sint_signed_take_bit_bounds [of "n - 1" v] by (simp_all add: sext_eq sint_scast_up)

lemma bit_sext:
  assumes "0 < n" "n \<le> 32" "k < n"
  shows "bit (sext v n) k = bit v k"
proof -
  have "min 31 k = k" "min k (n - 1) = k" using assms by auto
  with assms show ?thesis by (simp add: sext_eq bit_simps)
qed

lemma sext_sext:
  assumes "0 < n" "n \<le> m" "m \<le> 32"
  shows "sext (ucast (sext v n)) m = sext v n"
proof -
  have "ucast (sext v n) = signed_take_bit (n - 1) v"
    using assms by (intro bit_word_eqI) (auto simp: sext_eq bit_simps min_def)
  moreover have "signed_take_bit (m - 1) (signed_take_bit (n - 1) v) = signed_take_bit (n - 1) v"
    using assms by (simp add: signed_take_bit_signed_take_bit min.absorb1 diff_le_mono)
  ultimately show ?thesis using assms by (simp add: sext_eq)
qed

lemma sext_unsigned: 
  assumes "0 < n" "n \<le> 32" "v < 2 ^ (n - 1)"
  shows "sext v n = ucast v"
proof (rule bit_word_eqI)
  fix k :: nat assume "k < LENGTH(64)"
  have "\<not> bit v j" if "n - 1 \<le> j" for j using not_bit_above [OF assms(3) that] .
  then show "bit (sext v n) k = bit (ucast v :: u64) k"
    using assms by (auto simp: sext_eq bit_simps min_def)
qed

lemma instruction_fields [simp]:
  "rd (instruction_new w) < 32" "rs1 (instruction_new w) < 32" "rs2 (instruction_new w) < 32"
  "unat (shamt (instruction_new w)) < 64"
  using unat_take_bit_less [of 5 "drop_bit 7 w"] unat_take_bit_less [of 5 "drop_bit 15 w"]
    unat_take_bit_less [of 5 "drop_bit 20 w"] unat_take_bit_less [of 6 "drop_bit 20 w"]
  by (simp_all add: instruction_new_def mask_literals)

lemma upper_mask: "(w :: u32) AND 0xfffff000 = push_bit 12 (drop_bit 12 w)"
proof -
  have m: "(0xfffff000 :: u32) = NOT (mask 12)" by code_simp
  show ?thesis unfolding m by (intro bit_word_eqI) (auto simp: bit_simps)
qed

lemma even_sext: "0 < n \<Longrightarrow> n \<le> 32 \<Longrightarrow> \<not> bit x 0 \<Longrightarrow> even (sext x n)"
  using bit_sext [of n 0 x] by (simp add: bit_0)

lemma even_imm: "even (imm_b (instruction_new w))" "even (imm_j (instruction_new w))"
  unfolding instruction_new_def instruction.simps   by (rule even_sext; simp only: bit_or_iff bit_push_bit_iff; simp)+

text \<open>The upper immediate is the signed word with its low twelve bits cleared.\<close>

lemma imm_u_value: "sint (imm_u (instruction_new w)) = 4096 * (sint w div 4096)"
proof -
  have i: "x AND NOT (mask 12) = 4096 * (x div 4096)" for x :: int
  proof -
    have "x AND NOT (mask 12) = push_bit 12 (drop_bit 12 x)" by (rule bit_eqI) (auto simp: bit_simps)
    then show ?thesis by (simp add: push_bit_eq_mult drop_bit_eq_div)
  qed
  have "sint (0xfffff000 :: u32) = NOT (mask 12)" by code_simp
  then have "sint (w AND 0xfffff000) = 4096 * (sint w div 4096)" by (simp only: signed_and_eq i)
  then show ?thesis by (simp add: instruction_new_def sint_scast_up)
qed

lemma imm_u_range:
  "- 2147483648 \<le> sint (imm_u (instruction_new w))" "sint (imm_u (instruction_new w)) \<le> 2147483647 - 4095"
proof -
  have "- 2147483648 \<le> sint w" "sint w \<le> 2147483647" using sint_range_size [of w] by (simp_all add: word_size)
  then have "- 524288 \<le> sint w div 4096" "sint w div 4096 \<le> 524287"
    using zdiv_mono1 [of "- 2147483648" "sint w" 4096] zdiv_mono1 [of "sint w" 2147483647 4096] by simp_all
  then show "- 2147483648 \<le> sint (imm_u (instruction_new w))" "sint (imm_u (instruction_new w)) \<le> 2147483647 - 4095"
    by (simp_all add: imm_u_value)
qed

text \<open>
  C35: what a decoded word can hold. Register numbers are below 32, the function fields, shift
  amount and CSR number within their widths; the I, S, B and J immediates are in the ranges of
  their encodings, branch and jump offsets are even, and the upper immediate is the signed word
  with its low twelve bits cleared: a multiple of 4096 between \<open>-2^31\<close> and \<open>2^31 - 4096\<close>.
\<close>

theorem decode_bounds:
  "rd (instruction_new w) < 32 \<and> rs1 (instruction_new w) < 32 \<and> rs2 (instruction_new w) < 32
   \<and> opcode (instruction_new w) < 0x80 \<and> funct3 (instruction_new w) < 8 \<and> funct7 (instruction_new w) < 0x80
   \<and> unat (shamt (instruction_new w)) < 64 \<and> unat (csr (instruction_new w)) < 4096
   \<and> - 2048 \<le> sint (imm_i (instruction_new w)) \<and> sint (imm_i (instruction_new w)) < 2048
   \<and> - 2048 \<le> sint (imm_s (instruction_new w)) \<and> sint (imm_s (instruction_new w)) < 2048
   \<and> - 4096 \<le> sint (imm_b (instruction_new w)) \<and> sint (imm_b (instruction_new w)) < 4096
   \<and> even (imm_b (instruction_new w))
   \<and> - 1048576 \<le> sint (imm_j (instruction_new w)) \<and> sint (imm_j (instruction_new w)) < 1048576
   \<and> even (imm_j (instruction_new w))
   \<and> sint (imm_u (instruction_new w)) = 4096 * (sint w div 4096)
   \<and> - 2147483648 \<le> sint (imm_u (instruction_new w)) \<and> sint (imm_u (instruction_new w)) \<le> 2147483647 - 4095
   \<and> take_bit 12 (imm_u (instruction_new w)) = 0"
proof (intro conjI)
  show "even (imm_b (instruction_new w))" "even (imm_j (instruction_new w))" by (rule even_imm)+
  show "take_bit 12 (imm_u (instruction_new w)) = 0"
    by (rule bit_word_eqI) (auto simp: instruction_new_def upper_mask bit_simps)
  show "sint (imm_u (instruction_new w)) = 4096 * (sint w div 4096)" by (rule imm_u_value)
  show "- 2147483648 \<le> sint (imm_u (instruction_new w))" "sint (imm_u (instruction_new w)) \<le> 2147483647 - 4095"
    by (rule imm_u_range)+
  show "rd (instruction_new w) < 32" "rs1 (instruction_new w) < 32" "rs2 (instruction_new w) < 32"
    "unat (shamt (instruction_new w)) < 64" by (rule instruction_fields)+
qed (use unat_take_bit_less [of 7 w] unat_take_bit_less [of 3 "drop_bit 12 w"]
      unat_take_bit_less [of 7 "drop_bit 25 w"] unat_take_bit_less [of 12 "drop_bit 20 w"]
      sint_sext_bounds [of 12] sint_sext_bounds [of 13] sint_sext_bounds [of 21]
   in \<open>simp_all add: instruction_new_def mask_literals word_less_nat_alt\<close>)

end
