(* ===== verification/Asm.thy ===== *)
theory Asm
  imports Decode
begin

text \<open>
  The instruction encoders of \<^verbatim>\<open>asm.rs\<close>, the constants they are called with and the program
  they build.
\<close>

definition encode_i :: "u32 \<Rightarrow> u32 \<Rightarrow> u32 \<Rightarrow> u32 \<Rightarrow> u32 \<Rightarrow> u32" where
  "encode_i imm r1 f3 d opc =
     push_bit 20 (imm AND 0xfff) OR push_bit 15 r1 OR push_bit 12 f3 OR push_bit 7 d OR opc"

definition encode_s :: "u32 \<Rightarrow> u32 \<Rightarrow> u32 \<Rightarrow> u32 \<Rightarrow> u32 \<Rightarrow> u32" where
  "encode_s imm r1 r2 f3 opc =
     push_bit 25 (drop_bit 5 imm AND 0x7f) OR push_bit 20 r2 OR push_bit 15 r1
     OR push_bit 12 f3 OR push_bit 7 (imm AND 0x1f) OR opc"

definition encode_u :: "u32 \<Rightarrow> u32 \<Rightarrow> u32 \<Rightarrow> u32" where
  "encode_u imm d opc = (imm AND 0xfffff000) OR push_bit 7 d OR opc"

definition encode_j :: "u32 \<Rightarrow> u32 \<Rightarrow> u32 \<Rightarrow> u32" where
  "encode_j imm d opc =
     (let bit20 = drop_bit 20 imm AND 1;
          bits10_1 = drop_bit 1 imm AND 0x3ff;
          bit11 = drop_bit 11 imm AND 1;
          bits19_12 = drop_bit 12 imm AND 0xff
      in push_bit 31 bit20 OR push_bit 21 bits10_1 OR push_bit 20 bit11 OR push_bit 12 bits19_12
         OR push_bit 7 d OR opc)"

definition encode_b :: "u32 \<Rightarrow> u32 \<Rightarrow> u32 \<Rightarrow> u32 \<Rightarrow> u32 \<Rightarrow> u32" where
  "encode_b imm r1 r2 f3 opc =
     (let bit12 = drop_bit 12 imm AND 1;
          bits10_5 = drop_bit 5 imm AND 0x3f;
          bits4_1 = drop_bit 1 imm AND 0xf;
          bit11 = drop_bit 11 imm AND 1
      in push_bit 31 bit12 OR push_bit 25 bits10_5 OR push_bit 20 r2 OR push_bit 15 r1
         OR push_bit 12 f3 OR push_bit 8 bits4_1 OR push_bit 7 bit11 OR opc)"

abbreviation (input) ZERO :: u32 where "ZERO \<equiv> 0"
abbreviation (input) RA :: u32 where "RA \<equiv> 1"
abbreviation (input) SP :: u32 where "SP \<equiv> 2"
abbreviation (input) T0 :: u32 where "T0 \<equiv> 5"
abbreviation (input) T1 :: u32 where "T1 \<equiv> 6"
abbreviation (input) T2 :: u32 where "T2 \<equiv> 7"
abbreviation (input) A0 :: u32 where "A0 \<equiv> 10"

abbreviation (input) OPCODE_LOAD :: u32 where "OPCODE_LOAD \<equiv> 0x03"
abbreviation (input) OPCODE_STORE :: u32 where "OPCODE_STORE \<equiv> 0x23"
abbreviation (input) OPCODE_OP_IMM :: u32 where "OPCODE_OP_IMM \<equiv> 0x13"
abbreviation (input) OPCODE_LUI :: u32 where "OPCODE_LUI \<equiv> 0x37"
abbreviation (input) OPCODE_JALR :: u32 where "OPCODE_JALR \<equiv> 0x67"
abbreviation (input) OPCODE_JAL :: u32 where "OPCODE_JAL \<equiv> 0x6f"
abbreviation (input) OPCODE_BRANCH :: u32 where "OPCODE_BRANCH \<equiv> 0x63"

abbreviation (input) FUNCT3_SW :: u32 where "FUNCT3_SW \<equiv> 0x2"
abbreviation (input) FUNCT3_LW :: u32 where "FUNCT3_LW \<equiv> 0x2"
abbreviation (input) FUNCT3_ADDI :: u32 where "FUNCT3_ADDI \<equiv> 0x0"
abbreviation (input) FUNCT3_BEQ :: u32 where "FUNCT3_BEQ \<equiv> 0x0"

definition stack_demo_program :: "u8 list" where
  "stack_demo_program =
     concat (map (\<lambda>w. to_le_bytes 4 (ucast w))
       [encode_u 0x3000 SP OPCODE_LUI,
        encode_i 42 ZERO FUNCT3_ADDI T0 OPCODE_OP_IMM,
        encode_s 0 SP T0 FUNCT3_SW OPCODE_STORE,
        encode_i 0 SP FUNCT3_LW T1 OPCODE_LOAD,
        encode_i 1 T1 FUNCT3_ADDI T1 OPCODE_OP_IMM,
        encode_s 4 SP T1 FUNCT3_SW OPCODE_STORE,
        encode_i 4 SP FUNCT3_LW A0 OPCODE_LOAD,
        encode_i 0 RA 0x0 ZERO OPCODE_JALR])"

section \<open>Decoding what was encoded\<close>

lemmas field_defs = instruction_new_def instruction.simps mask_literals

lemma bits_above:
  fixes w :: u32
  shows "w < 8 \<Longrightarrow> 3 \<le> k \<Longrightarrow> \<not> bit w k" "w < 0x20 \<Longrightarrow> 5 \<le> k \<Longrightarrow> \<not> bit w k"
    "w < 0x80 \<Longrightarrow> 7 \<le> k \<Longrightarrow> \<not> bit w k"
  using not_bit_above [of w 3 k] not_bit_above [of w 5 k] not_bit_above [of w 7 k] by simp_all

text \<open>A field is compared bit by bit.\<close>

lemma field_eqI:
  fixes x y :: "'a::len word"
  assumes "y < 2 ^ n" "list_all (\<lambda>k. bit x k = bit y k) [0..<n]"
  shows "take_bit n x = y"
proof (rule bit_word_eqI)
  fix k
  show "bit (take_bit n x) k = bit y k"
    using assms not_bit_above [of y n k] by (cases "k < n") (auto simp: bit_take_bit_iff list_all_iff)
qed

lemma take_bit_eqI:
  fixes x y :: "'a::len word"
  assumes "list_all (\<lambda>k. bit x k = bit y k) [0..<n]"
  shows "take_bit n x = take_bit n y"
  using assms by (intro bit_word_eqI) (auto simp: bit_take_bit_iff list_all_iff)

lemma field_bits [simp]:
  "[0..<3] = [0, 1, 2]" "[0..<5] = [0, 1, 2, 3, 4]" "[0..<7] = [0, 1, 2, 3, 4, 5, 6]"
  "[0..<12] = [0, 1, 2, 3, 4, 5, 6, 7, 8, 9, 10, 11]"
  "[0..<13] = [0, 1, 2, 3, 4, 5, 6, 7, 8, 9, 10, 11, 12]"
  "[0..<21] = [0, 1, 2, 3, 4, 5, 6, 7, 8, 9, 10, 11, 12, 13, 14, 15, 16, 17, 18, 19, 20]"
  by code_simp+

lemma u32_bits:
  fixes v w :: u32
  shows "bit (push_bit m w) k \<longleftrightarrow> m \<le> k \<and> k < 32 \<and> bit w (k - m)"
    "bit (drop_bit m w) k \<longleftrightarrow> bit w (m + k)" "bit (take_bit m w) k \<longleftrightarrow> k < m \<and> bit w k"
    "bit (v OR w) k \<longleftrightarrow> bit v k \<or> bit w k"
  by (simp_all add: bit_simps)

lemma decode_encode_i:
  assumes "r1 < 0x20" "f3 < 8" "d < 0x20" "opc < 0x80"
  shows "opcode (instruction_new (encode_i imm r1 f3 d opc)) = opc"
    "funct3 (instruction_new (encode_i imm r1 f3 d opc)) = f3"
    "rd (instruction_new (encode_i imm r1 f3 d opc)) = unat d"
    "rs1 (instruction_new (encode_i imm r1 f3 d opc)) = unat r1"
    "imm_i (instruction_new (encode_i imm r1 f3 d opc)) = sext imm 12"
proof -
  note D = bits_above(1) [OF assms(2)] bits_above(2) [OF assms(1)] bits_above(2) [OF assms(3)]
    bits_above(3) [OF assms(4)]
  let ?w = "encode_i imm r1 f3 d opc"
  have "take_bit 7 ?w = opc" "take_bit 3 (drop_bit 12 ?w) = f3"
    "take_bit 5 (drop_bit 7 ?w) = d" "take_bit 5 (drop_bit 15 ?w) = r1"
    unfolding encode_i_def mask_literals
    using assms by (intro field_eqI; simp add: bit_simps D)+
  then show "opcode (instruction_new ?w) = opc" "funct3 (instruction_new ?w) = f3"
    "rd (instruction_new ?w) = unat d" "rs1 (instruction_new ?w) = unat r1"
    unfolding field_defs by simp_all
  show "imm_i (instruction_new ?w) = sext imm 12"
    unfolding field_defs encode_i_def
    by (rule sext_cong, simp, simp, rule take_bit_eqI) (simp add: bit_simps D)
qed

lemma low_of_12:
  fixes x y :: u32
  assumes "take_bit 12 x = take_bit 12 y"
  shows "take_bit 5 x = take_bit 5 y" "take_bit 6 x = take_bit 6 y"
    "take_bit 7 (drop_bit 5 x) = take_bit 7 (drop_bit 5 y)"
  using arg_cong [OF assms, of "take_bit 5"] arg_cong [OF assms, of "take_bit 6"] arg_cong [OF assms, of "drop_bit 5"]
  by (simp_all add: drop_bit_take_bit)

lemma decode_encode_i_low:
  assumes "r1 < 0x20" "f3 < 8" "d < 0x20" "opc < 0x80"
  shows "rs2 (instruction_new (encode_i imm r1 f3 d opc)) = unat (take_bit 5 imm)"
    "shamt (instruction_new (encode_i imm r1 f3 d opc)) = take_bit 6 imm"
    "funct7 (instruction_new (encode_i imm r1 f3 d opc)) = take_bit 7 (drop_bit 5 imm)"
proof -
  note D = bits_above(1) [OF assms(2)] bits_above(2) [OF assms(1)] bits_above(2) [OF assms(3)]
    bits_above(3) [OF assms(4)]
  let ?w = "encode_i imm r1 f3 d opc"
  have "take_bit 12 (drop_bit 20 ?w) = take_bit 12 imm"
    unfolding encode_i_def mask_literals by (rule take_bit_eqI) (simp add: bit_simps D)
  note this [THEN low_of_12(1)] this [THEN low_of_12(2)] this [THEN low_of_12(3), unfolded drop_bit_drop_bit]
  then show "rs2 (instruction_new ?w) = unat (take_bit 5 imm)" "shamt (instruction_new ?w) = take_bit 6 imm"
    "funct7 (instruction_new ?w) = take_bit 7 (drop_bit 5 imm)"
    unfolding field_defs by simp_all
qed

lemma decode_encode_s:
  assumes "r1 < 0x20" "r2 < 0x20" "f3 < 8" "opc < 0x80"
  shows "opcode (instruction_new (encode_s imm r1 r2 f3 opc)) = opc"
    "funct3 (instruction_new (encode_s imm r1 r2 f3 opc)) = f3"
    "rs1 (instruction_new (encode_s imm r1 r2 f3 opc)) = unat r1"
    "rs2 (instruction_new (encode_s imm r1 r2 f3 opc)) = unat r2"
    "imm_s (instruction_new (encode_s imm r1 r2 f3 opc)) = sext imm 12"
proof -
  note D = bits_above(1) [OF assms(3)] bits_above(2) [OF assms(1)] bits_above(2) [OF assms(2)]
    bits_above(3) [OF assms(4)]
  let ?w = "encode_s imm r1 r2 f3 opc"
  have "take_bit 7 ?w = opc" "take_bit 3 (drop_bit 12 ?w) = f3"
    "take_bit 5 (drop_bit 15 ?w) = r1" "take_bit 5 (drop_bit 20 ?w) = r2"
    unfolding encode_s_def mask_literals
    using assms by (intro field_eqI; simp add: bit_simps D)+
  then show "opcode (instruction_new ?w) = opc" "funct3 (instruction_new ?w) = f3"
    "rs1 (instruction_new ?w) = unat r1" "rs2 (instruction_new ?w) = unat r2"
    unfolding field_defs by simp_all
  show "imm_s (instruction_new ?w) = sext imm 12"
    unfolding field_defs encode_s_def
    by (rule sext_cong, simp, simp, rule take_bit_eqI) (simp add: bit_simps D)
qed

lemma decode_encode_u:
  assumes "d < 0x20" "opc < 0x80"
  shows "opcode (instruction_new (encode_u imm d opc)) = opc"
    "rd (instruction_new (encode_u imm d opc)) = unat d"
    "imm_u (instruction_new (encode_u imm d opc)) = scast (imm AND 0xfffff000)"
proof -
  note D = bits_above(2) [OF assms(1)] bits_above(3) [OF assms(2)]
  let ?w = "encode_u imm d opc"
  have "take_bit 7 ?w = opc" "take_bit 5 (drop_bit 7 ?w) = d"
    unfolding encode_u_def upper_mask
    using assms by (intro field_eqI; simp add: bit_simps D)+
  then show "opcode (instruction_new ?w) = opc" "rd (instruction_new ?w) = unat d"
    unfolding field_defs by simp_all
  show "imm_u (instruction_new ?w) = scast (imm AND 0xfffff000)"
    unfolding field_defs encode_u_def upper_mask
    by (rule arg_cong [where f = scast], rule bit_word_eqI) (auto simp: bit_simps D)
qed

lemma decode_encode_b:
  assumes "r1 < 0x20" "r2 < 0x20" "f3 < 8" "opc < 0x80" "even imm"
  shows "opcode (instruction_new (encode_b imm r1 r2 f3 opc)) = opc"
    "funct3 (instruction_new (encode_b imm r1 r2 f3 opc)) = f3"
    "rs1 (instruction_new (encode_b imm r1 r2 f3 opc)) = unat r1"
    "rs2 (instruction_new (encode_b imm r1 r2 f3 opc)) = unat r2"
    "imm_b (instruction_new (encode_b imm r1 r2 f3 opc)) = sext imm 13"
proof -
  note D = bits_above(1) [OF assms(3)] bits_above(2) [OF assms(1)] bits_above(2) [OF assms(2)]
    bits_above(3) [OF assms(4)]
  let ?w = "encode_b imm r1 r2 f3 opc"
  have "take_bit 7 ?w = opc" "take_bit 3 (drop_bit 12 ?w) = f3"
    "take_bit 5 (drop_bit 15 ?w) = r1" "take_bit 5 (drop_bit 20 ?w) = r2"
    unfolding encode_b_def mask_literals Let_def
    using assms(1-4) by (intro field_eqI; simp add: bit_simps D)+
  then show "opcode (instruction_new ?w) = opc" "funct3 (instruction_new ?w) = f3"
    "rs1 (instruction_new ?w) = unat r1" "rs2 (instruction_new ?w) = unat r2"
    unfolding field_defs by simp_all
  show "imm_b (instruction_new ?w) = sext imm 13"
    unfolding field_defs encode_b_def Let_def
    by (rule sext_cong, simp, simp, rule take_bit_eqI) (simp only: field_bits list.pred_inject u32_bits, use assms(5) in \<open>simp add: D bit_0 flip: numeral_2_eq_2 numeral_3_eq_3\<close>)
qed

lemma decode_encode_j:
  assumes "d < 0x20" "opc < 0x80" "even imm"
  shows "opcode (instruction_new (encode_j imm d opc)) = opc"
    "rd (instruction_new (encode_j imm d opc)) = unat d"
    "imm_j (instruction_new (encode_j imm d opc)) = sext imm 21"
proof -
  note D = bits_above(2) [OF assms(1)] bits_above(3) [OF assms(2)]
  let ?w = "encode_j imm d opc"
  have "take_bit 7 ?w = opc" "take_bit 5 (drop_bit 7 ?w) = d"
    unfolding encode_j_def mask_literals Let_def
    using assms(1,2) by (intro field_eqI; simp add: bit_simps D)+
  then show "opcode (instruction_new ?w) = opc" "rd (instruction_new ?w) = unat d"
    unfolding field_defs by simp_all
  show "imm_j (instruction_new ?w) = sext imm 21"
    unfolding field_defs encode_j_def Let_def
    by (rule sext_cong, simp, simp, rule take_bit_eqI) (simp only: field_bits list.pred_inject u32_bits, use assms(3) in \<open>simp add: D bit_0 flip: numeral_2_eq_2 numeral_3_eq_3\<close>)
qed

text \<open>
  C24: the encoders and the decoder agree. For register numbers below 32, function fields in their
  widths and immediates in the range of the format (even ones for branches and jumps), decoding an
  encoded instruction gives back its opcode, registers, function field and sign-extended immediate.
\<close>

theorem encode_decode_roundtrip:
  assumes "r1 < 0x20" "r2 < 0x20" "d < 0x20" "f3 < 8" "opc < 0x80"
  shows "(- 2048 \<le> sint imm \<and> sint imm < 2048 \<longrightarrow>
      (let i = instruction_new (encode_i imm r1 f3 d opc) in
        opcode i = opc \<and> funct3 i = f3 \<and> rd i = unat d \<and> rs1 i = unat r1 \<and> imm_i i = scast imm)
      \<and> (let i = instruction_new (encode_s imm r1 r2 f3 opc) in
        opcode i = opc \<and> funct3 i = f3 \<and> rs1 i = unat r1 \<and> rs2 i = unat r2 \<and> imm_s i = scast imm))
    \<and> (let i = instruction_new (encode_u imm d opc) in
        opcode i = opc \<and> rd i = unat d \<and> imm_u i = scast (imm AND 0xfffff000))
    \<and> (even imm \<and> - 4096 \<le> sint imm \<and> sint imm < 4096 \<longrightarrow>
      (let i = instruction_new (encode_b imm r1 r2 f3 opc) in
        opcode i = opc \<and> funct3 i = f3 \<and> rs1 i = unat r1 \<and> rs2 i = unat r2 \<and> imm_b i = scast imm))
    \<and> (even imm \<and> - 1048576 \<le> sint imm \<and> sint imm < 1048576 \<longrightarrow>
      (let i = instruction_new (encode_j imm d opc) in
        opcode i = opc \<and> rd i = unat d \<and> imm_j i = scast imm))"
  using assms by (simp add: decode_encode_i decode_encode_s decode_encode_u decode_encode_b decode_encode_j
      sext_in_range)

theorem encode_decode_roundtrip_witness:
  "imm_b (instruction_new (encode_b (- 8) 5 6 1 OPCODE_BRANCH)) = - 8
   \<and> rs2 (instruction_new (encode_b (- 8) 5 6 1 OPCODE_BRANCH)) = 6"
  using encode_decode_roundtrip [of 5 6 0 1 "OPCODE_BRANCH" "- 8"] by (simp add: Let_def)

end
