(* ===== verification/Execute.thy ===== *)
theory Execute
  imports Mmu Asm
begin

text \<open>
  \<^verbatim>\<open>execute.rs\<close>: the RV64I/M instructions, AMOSWAP.W and the SYSTEM opcode. One definition per
  arm of the opcode match; the arms that compute a register value have that computation as a
  function of the operands, with \<open>None\<close> for the encodings the match leaves to
  \<open>illegal_instruction\<close>.
\<close>

abbreviation (input) OPCODE_MISC_MEM :: u32 where "OPCODE_MISC_MEM \<equiv> 0x0f"
abbreviation (input) OPCODE_AUIPC :: u32 where "OPCODE_AUIPC \<equiv> 0x17"
abbreviation (input) OPCODE_OP_IMM_32 :: u32 where "OPCODE_OP_IMM_32 \<equiv> 0x1b"
abbreviation (input) OPCODE_OP :: u32 where "OPCODE_OP \<equiv> 0x33"
abbreviation (input) OPCODE_OP_32 :: u32 where "OPCODE_OP_32 \<equiv> 0x3b"
abbreviation (input) OPCODE_SYSTEM :: u32 where "OPCODE_SYSTEM \<equiv> 0x73"
abbreviation (input) OPCODE_AMO :: u32 where "OPCODE_AMO \<equiv> 0x2f"

definition sext64 :: "u64 \<Rightarrow> nat \<Rightarrow> u64" where
  "sext64 v bits = (let shift = 64 - bits in signed_drop_bit shift (push_bit shift v))"

definition illegal_instruction :: "instruction \<Rightarrow> (machine, 'a) op" where
  "illegal_instruction i = (\<lambda>(c, b). (error (Not_implemented (opcode i) (i_value i) (pc c)), (c, b)))"

text \<open>Write \<open>rd\<close>, or take the illegal-instruction exit.\<close>

definition write_rd :: "instruction \<Rightarrow> u64 option \<Rightarrow> u64 \<Rightarrow> (machine, u64) op" where
  "write_rd i out next_pc =
     (case out of
        None \<Rightarrow> illegal_instruction i
      | Some v \<Rightarrow> and_then (set_reg (rd i) v) (\<lambda>_. ok next_pc))"

section \<open>Loads and stores\<close>

definition load_value :: "u32 \<Rightarrow> u64 \<Rightarrow> instruction \<Rightarrow> (machine, u64) op" where
  "load_value f3 addr i =
     (if f3 = 0 then and_then (cpu_read addr 1) (\<lambda>v. ok (sext64 v 8))
      else if f3 = 1 then and_then (cpu_read addr 2) (\<lambda>v. ok (sext64 v 16))
      else if f3 = 2 then and_then (cpu_read addr 4) (\<lambda>v. ok (sext64 v 32))
      else if f3 = 3 then cpu_read addr 8
      else if f3 = 4 then cpu_read addr 1
      else if f3 = 5 then cpu_read addr 2
      else if f3 = 6 then cpu_read addr 4
      else illegal_instruction i)"

definition exec_load :: "instruction \<Rightarrow> u64 \<Rightarrow> (machine, u64) op" where
  "exec_load i next_pc =
     and_then (get_reg (rs1 i)) (\<lambda>base.
     and_then (load_value (funct3 i) (base + imm_i i) i) (\<lambda>out.
     and_then (set_reg (rd i) out) (\<lambda>_.
     ok next_pc)))"

definition exec_store :: "instruction \<Rightarrow> u64 \<Rightarrow> (machine, u64) op" where
  "exec_store i next_pc =
     and_then (get_reg (rs1 i)) (\<lambda>base.
     and_then (get_reg (rs2 i)) (\<lambda>v.
     let addr = base + imm_s i in
     and_then
       (if funct3 i = 0 then cpu_write addr 1 v
        else if funct3 i = 1 then cpu_write addr 2 v
        else if funct3 i = 2 then cpu_write addr 4 v
        else if funct3 i = 3 then cpu_write addr 8 v
        else illegal_instruction i) (\<lambda>_.
     ok next_pc)))"

section \<open>Branches\<close>

definition branch_taken :: "u32 \<Rightarrow> u64 \<Rightarrow> u64 \<Rightarrow> bool option" where
  "branch_taken f3 a b =
     (if f3 = 0 then Some (a = b)
      else if f3 = 1 then Some (a \<noteq> b)
      else if f3 = 4 then Some (a <s b)
      else if f3 = 5 then Some (b \<le>s a)
      else if f3 = 6 then Some (a < b)
      else if f3 = 7 then Some (b \<le> a)
      else None)"

definition exec_branch :: "instruction \<Rightarrow> u64 \<Rightarrow> u64 \<Rightarrow> (machine, u64) op" where
  "exec_branch i pc0 next_pc =
     and_then (get_reg (rs1 i)) (\<lambda>a.
     and_then (get_reg (rs2 i)) (\<lambda>b.
     case branch_taken (funct3 i) a b of
       None \<Rightarrow> illegal_instruction i
     | Some taken \<Rightarrow> ok (if taken then pc0 + imm_b i else next_pc)))"

section \<open>Register computations\<close>

definition alu_imm :: "instruction \<Rightarrow> u64 \<Rightarrow> u64 option" where
  "alu_imm i a =
     (let imm = imm_i i; f3 = funct3 i; sh = unat (shamt i) in
      if f3 = 0 then Some (a + imm)
      else if f3 = 2 then Some (of_bool (a <s imm))
      else if f3 = 3 then Some (of_bool (a < imm))
      else if f3 = 4 then Some (a XOR imm)
      else if f3 = 6 then Some (a OR imm)
      else if f3 = 7 then Some (a AND imm)
      else if f3 = 1 then Some (push_bit sh a)
      else if f3 = 5 then
        Some (if funct7 i AND 0x20 \<noteq> 0 then signed_drop_bit sh a else drop_bit sh a)
      else None)"

definition alu_imm32 :: "instruction \<Rightarrow> u32 \<Rightarrow> u32 option" where
  "alu_imm32 i a =
     (let f3 = funct3 i; sh = unat (shamt i AND 0x1f) in
      if f3 = 0 then Some (a + ucast (imm_i i))
      else if f3 = 1 then Some (push_bit sh a)
      else if f3 = 5 then
        Some (if funct7 i AND 0x20 \<noteq> 0 then signed_drop_bit sh a else drop_bit sh a)
      else None)"

text \<open>Signed division and remainder truncate towards zero.\<close>

definition div_signed :: "'a::len word \<Rightarrow> 'a word \<Rightarrow> 'a word" where
  "div_signed a b =
     (if b = 0 then - 1
      else if sint a = - (2 ^ (LENGTH('a) - 1)) \<and> b = - 1 then a
      else word_of_int (sint a sdiv sint b))"

definition rem_signed :: "'a::len word \<Rightarrow> 'a word \<Rightarrow> 'a word" where
  "rem_signed a b =
     (if b = 0 then a
      else if sint a = - (2 ^ (LENGTH('a) - 1)) \<and> b = - 1 then 0
      else word_of_int (sint a smod sint b))"

definition div_unsigned :: "'a::len word \<Rightarrow> 'a word \<Rightarrow> 'a word" where
  "div_unsigned a b = (if b = 0 then - 1 else a div b)"

definition rem_unsigned :: "'a::len word \<Rightarrow> 'a word \<Rightarrow> 'a word" where
  "rem_unsigned a b = (if b = 0 then a else a mod b)"

definition mulh :: "u64 \<Rightarrow> u64 \<Rightarrow> u64" where
  "mulh a b = ucast (signed_drop_bit 64 ((scast a :: i128) * scast b))"

definition mulhsu :: "u64 \<Rightarrow> u64 \<Rightarrow> u64" where
  "mulhsu a b = ucast (signed_drop_bit 64 ((scast a :: i128) * ucast b))"

definition mulhu :: "u64 \<Rightarrow> u64 \<Rightarrow> u64" where
  "mulhu a b = ucast (drop_bit 64 ((ucast a :: 128 word) * ucast b))"

definition alu_op :: "u32 \<Rightarrow> u32 \<Rightarrow> u64 \<Rightarrow> u64 \<Rightarrow> u64 option" where
  "alu_op f3 f7 a b =
     (let sh = unat (b AND 0x3f) in
      if (f3, f7) = (0x0, 0x00) then Some (a + b)
      else if (f3, f7) = (0x0, 0x20) then Some (a - b)
      else if (f3, f7) = (0x1, 0x00) then Some (push_bit sh a)
      else if (f3, f7) = (0x2, 0x00) then Some (of_bool (a <s b))
      else if (f3, f7) = (0x3, 0x00) then Some (of_bool (a < b))
      else if (f3, f7) = (0x4, 0x00) then Some (a XOR b)
      else if (f3, f7) = (0x5, 0x00) then Some (drop_bit sh a)
      else if (f3, f7) = (0x5, 0x20) then Some (signed_drop_bit sh a)
      else if (f3, f7) = (0x6, 0x00) then Some (a OR b)
      else if (f3, f7) = (0x7, 0x00) then Some (a AND b)
      else if (f3, f7) = (0x0, 0x01) then Some (a * b)
      else if (f3, f7) = (0x1, 0x01) then Some (mulh a b)
      else if (f3, f7) = (0x2, 0x01) then Some (mulhsu a b)
      else if (f3, f7) = (0x3, 0x01) then Some (mulhu a b)
      else if (f3, f7) = (0x4, 0x01) then Some (div_signed a b)
      else if (f3, f7) = (0x5, 0x01) then Some (div_unsigned a b)
      else if (f3, f7) = (0x6, 0x01) then Some (rem_signed a b)
      else if (f3, f7) = (0x7, 0x01) then Some (rem_unsigned a b)
      else None)"

definition alu_op32 :: "u32 \<Rightarrow> u32 \<Rightarrow> u32 \<Rightarrow> u32 \<Rightarrow> u32 option" where
  "alu_op32 f3 f7 a b =
     (let sh = unat (b AND 0x1f) in
      if (f3, f7) = (0x0, 0x00) then Some (a + b)
      else if (f3, f7) = (0x0, 0x20) then Some (a - b)
      else if f3 = 0x1 then Some (push_bit sh a)
      else if (f3, f7) = (0x5, 0x00) then Some (drop_bit sh a)
      else if (f3, f7) = (0x5, 0x20) then Some (signed_drop_bit sh a)
      else if (f3, f7) = (0x0, 0x01) then Some (a * b)
      else if (f3, f7) = (0x4, 0x01) then Some (div_signed a b)
      else if (f3, f7) = (0x5, 0x01) then Some (div_unsigned a b)
      else if (f3, f7) = (0x6, 0x01) then Some (rem_signed a b)
      else if (f3, f7) = (0x7, 0x01) then Some (rem_unsigned a b)
      else None)"

definition exec_op_imm :: "instruction \<Rightarrow> u64 \<Rightarrow> (machine, u64) op" where
  "exec_op_imm i next_pc =
     and_then (get_reg (rs1 i)) (\<lambda>a. write_rd i (alu_imm i a) next_pc)"

definition exec_op_imm_32 :: "instruction \<Rightarrow> u64 \<Rightarrow> (machine, u64) op" where
  "exec_op_imm_32 i next_pc =
     and_then (get_reg (rs1 i)) (\<lambda>a.
     write_rd i (map_option scast (alu_imm32 i (ucast a))) next_pc)"

definition exec_op :: "instruction \<Rightarrow> u64 \<Rightarrow> (machine, u64) op" where
  "exec_op i next_pc =
     and_then (get_reg (rs1 i)) (\<lambda>a.
     and_then (get_reg (rs2 i)) (\<lambda>b.
     write_rd i (alu_op (funct3 i) (funct7 i) a b) next_pc))"

definition exec_op_32 :: "instruction \<Rightarrow> u64 \<Rightarrow> (machine, u64) op" where
  "exec_op_32 i next_pc =
     and_then (get_reg (rs1 i)) (\<lambda>a.
     and_then (get_reg (rs2 i)) (\<lambda>b.
     write_rd i (map_option scast (alu_op32 (funct3 i) (funct7 i) (ucast a) (ucast b))) next_pc))"

section \<open>Jumps\<close>

definition exec_jal :: "instruction \<Rightarrow> u64 \<Rightarrow> u64 \<Rightarrow> (machine, u64) op" where
  "exec_jal i pc0 next_pc =
     and_then (set_reg (rd i) next_pc) (\<lambda>_. ok (pc0 + imm_j i))"

definition exec_jalr :: "instruction \<Rightarrow> u64 \<Rightarrow> (machine, u64) op" where
  "exec_jalr i next_pc =
     and_then (get_reg (rs1 i)) (\<lambda>base.
     let target = (base + imm_i i) AND NOT 1 in
     and_then (set_reg (rd i) next_pc) (\<lambda>_. ok target))"

section \<open>AMOSWAP.W\<close>

definition exec_amo :: "instruction \<Rightarrow> u64 \<Rightarrow> (machine, u64) op" where
  "exec_amo i next_pc =
     (if funct3 i = 0x2 \<and> drop_bit 2 (funct7 i) = 0b00001 then
        and_then (get_reg (rs1 i)) (\<lambda>addr.
        and_then (cpu_read addr 4) (\<lambda>v.
        let old = sext64 v 32 in
        and_then (get_reg (rs2 i)) (\<lambda>src.
        and_then (cpu_write addr 4 src) (\<lambda>_.
        and_then (set_reg (rd i) old) (\<lambda>_.
        ok next_pc)))))
      else illegal_instruction i)"

section \<open>SYSTEM\<close>

text \<open>The six CSR instructions: read the operand, then the old value, write \<open>rd\<close>, write the CSR.\<close>

definition csr_update :: "instruction \<Rightarrow> (u64 \<Rightarrow> u64) \<Rightarrow> u64 \<Rightarrow> (machine, u64) op" where
  "csr_update i f next_pc =
     and_then (gets (\<lambda>(c, b). csr_read c (csr i))) (\<lambda>old.
     and_then (set_reg (rd i) old) (\<lambda>_.
     and_then (on_cpu (\<lambda>c. csr_write c (csr i) (f old))) (\<lambda>_.
     ok next_pc)))"

definition exec_ecall :: "(machine, u64) op" where
  "exec_ecall = (\<lambda>(c, b).
     case raise_trap c (8 + ucast (mode c)) False 0 of (new_pc, c') \<Rightarrow> (Inr new_pc, (c', b)))"

definition exec_sret :: "(machine, u64) op" where
  "exec_sret = (\<lambda>(c, b).
     let s0 = csr_get (csrs c) MSTATUS;
         spie = (s0 AND MSTATUS_SPIE \<noteq> 0);
         spp = drop_bit 8 (s0 AND MSTATUS_SPP);
         s1 = (s0 AND NOT MSTATUS_SIE) OR (if spie then MSTATUS_SIE else 0);
         s2 = s1 OR MSTATUS_SPIE;
         s3 = s2 AND NOT MSTATUS_SPP;
         c' = (cset MSTATUS s3 c)\<lparr>mode := ucast spp\<rparr>
     in (Inr (csr_get (csrs c') SEPC), (c', b)))"

definition exec_mret :: "(machine, u64) op" where
  "exec_mret = (\<lambda>(c, b).
     let m0 = csr_get (csrs c) MSTATUS;
         mpie = (m0 AND MSTATUS_MPIE \<noteq> 0);
         mpp = drop_bit 11 (m0 AND MSTATUS_MPP);
         m1 = (m0 AND NOT MSTATUS_MIE) OR (if mpie then MSTATUS_MIE else 0);
         m2 = m1 OR MSTATUS_MPIE;
         m3 = m2 AND NOT MSTATUS_MPP;
         c' = (cset MSTATUS m3 c)\<lparr>mode := ucast mpp\<rparr>
     in (Inr (csr_get (csrs c') MEPC), (c', b)))"

definition exec_sfence_vma :: "u64 \<Rightarrow> (machine, u64) op" where
  "exec_sfence_vma next_pc =
     and_then (on_cpu (\<lambda>c. c\<lparr>tlb := tlb_flush (tlb c)\<rparr>)) (\<lambda>_. ok next_pc)"

definition execute_system :: "instruction \<Rightarrow> u64 \<Rightarrow> (machine, u64) op" where
  "execute_system i next_pc =
     (let f3 = funct3 i; imm = of_nat (rs1 i) :: u64 in
      if f3 = 0x1 then and_then (get_reg (rs1 i)) (\<lambda>v. csr_update i (\<lambda>_. v) next_pc)
      else if f3 = 0x2 then and_then (get_reg (rs1 i)) (\<lambda>v. csr_update i (\<lambda>old. old OR v) next_pc)
      else if f3 = 0x3 then
        and_then (get_reg (rs1 i)) (\<lambda>v. csr_update i (\<lambda>old. old AND NOT v) next_pc)
      else if f3 = 0x5 then csr_update i (\<lambda>_. imm) next_pc
      else if f3 = 0x6 then csr_update i (\<lambda>old. old OR imm) next_pc
      else if f3 = 0x7 then csr_update i (\<lambda>old. old AND NOT imm) next_pc
      else if f3 = 0x0 then
        (if funct7 i = 0b0000000 \<and> rs2 i = 0b00000 then exec_ecall
         else if funct7 i = 0b0001000 \<and> rs2 i = 0b00010 then exec_sret
         else if funct7 i = 0b0001000 \<and> rs2 i = 0b00101 then ok next_pc
         else if funct7 i = 0b0001001 then exec_sfence_vma next_pc
         else if funct7 i = 0b0011000 then exec_mret
         else illegal_instruction i)
      else illegal_instruction i)"

section \<open>Dispatch\<close>

text \<open>The match on the opcode, with the pc and the default next pc it works with.\<close>

definition execute_at :: "u64 \<Rightarrow> u64 \<Rightarrow> instruction \<Rightarrow> (machine, u64) op" where
  "execute_at pc0 default_next i =
     (if opcode i = OPCODE_LOAD then exec_load i default_next
      else if opcode i = OPCODE_STORE then exec_store i default_next
      else if opcode i = OPCODE_LUI then write_rd i (Some (imm_u i)) default_next
      else if opcode i = OPCODE_AUIPC then write_rd i (Some (pc0 + imm_u i)) default_next
      else if opcode i = OPCODE_JAL then exec_jal i pc0 default_next
      else if opcode i = OPCODE_JALR then exec_jalr i default_next
      else if opcode i = OPCODE_BRANCH then exec_branch i pc0 default_next
      else if opcode i = OPCODE_OP_IMM then exec_op_imm i default_next
      else if opcode i = OPCODE_OP_IMM_32 then exec_op_imm_32 i default_next
      else if opcode i = OPCODE_OP then exec_op i default_next
      else if opcode i = OPCODE_OP_32 then exec_op_32 i default_next
      else if opcode i = OPCODE_MISC_MEM then ok default_next
      else if opcode i = OPCODE_SYSTEM then execute_system i default_next
      else if opcode i = OPCODE_AMO then exec_amo i default_next
      else illegal_instruction i)"

definition execute :: "instruction \<Rightarrow> (machine, u64) op" where
  "execute i = and_then (gets (\<lambda>(c, b). pc c)) (\<lambda>pc0. execute_at pc0 (pc0 + 4) i)"

section \<open>Multiplication and division\<close>

lemma sint_word_of_int_id:
  "- (2 ^ (LENGTH('a::len) - 1)) \<le> x \<Longrightarrow> x < 2 ^ (LENGTH('a) - 1) \<Longrightarrow> sint (word_of_int x :: 'a word) = x"
  unfolding sint_sbintrunc' by (simp add: signed_take_bit_int_eq_self)

lemma sint_bounds:
  "- (2 ^ (LENGTH('a::len) - 1)) \<le> sint (w :: 'a word)" "sint w < 2 ^ (LENGTH('a) - 1)"
  using sint_greater_eq [of w] sint_less [of w] by simp_all

lemma sint_nonzero: "b \<noteq> 0 \<Longrightarrow> sint b \<noteq> 0"
  by (metis signed_word_eqI signed_0)

lemma sint_div_signed:
  fixes a b :: "'a::len word"
  assumes "b \<noteq> 0" "\<not> (sint a = - (2 ^ (LENGTH('a) - 1)) \<and> b = - 1)"
  shows "sint (div_signed a b) = sint a sdiv sint b"
proof -
  let ?q = "sint a sdiv sint b" and ?m = "2 ^ (LENGTH('a) - 1) :: int"
  have "- \<bar>sint a\<bar> \<le> ?q" "?q \<le> \<bar>sint a\<bar>" using sdiv_int_range [of "sint a" "sint b"] by auto
  moreover have "?q \<noteq> ?m"
  proof
    assume "?q = ?m"
    then have "sint a = - ?m" using calculation sint_bounds [of a] by linarith
    moreover from this have "sint b = - 1"
      using \<open>?q = ?m\<close> int_sdiv_negated_is_minus1 [of "sint a" "sint b"] by simp
    then have "b = - 1" by (intro signed_word_eqI) simp
    ultimately show False using assms(2) by blast
  qed
  ultimately have "- ?m \<le> ?q" "?q < ?m" using sint_bounds [of a] by linarith+
  then show ?thesis using assms by (simp only: div_signed_def if_False sint_word_of_int_id)
qed

lemma sint_rem_signed:
  fixes a b :: "'a::len word"
  assumes "b \<noteq> 0" "\<not> (sint a = - (2 ^ (LENGTH('a) - 1)) \<and> b = - 1)"
  shows "sint (rem_signed a b) = sint a smod sint b"
proof -
  have "sint b \<noteq> 0" using assms(1) by (rule sint_nonzero)
  then have "\<bar>sint a smod sint b\<bar> < \<bar>sint b\<bar>" using smod_int_range [of "sint b" "sint a"] by auto
  then have "- (2 ^ (LENGTH('a) - 1)) \<le> sint a smod sint b" "sint a smod sint b < 2 ^ (LENGTH('a) - 1)"
    using sint_bounds [of b] by linarith+
  then show ?thesis using assms by (simp only: rem_signed_def if_False sint_word_of_int_id)
qed

lemma abs_smod_less: "y \<noteq> 0 \<Longrightarrow> \<bar>(x::int) smod y\<bar> < \<bar>y\<bar>"
  using smod_int_range [of y x] by auto

lemma sgn_smod: "(x::int) smod y \<noteq> 0 \<Longrightarrow> sgn (x smod y) = sgn x"
proof -
  assume "x smod y \<noteq> 0"
  then have "0 < \<bar>x\<bar> mod \<bar>y\<bar>"
    using pos_mod_sign [of "\<bar>y\<bar>" "\<bar>x\<bar>"] by (cases "y = 0") (auto simp: signed_modulo_int_def less_le)
  then show ?thesis by (simp add: signed_modulo_int_def sgn_mult)
qed

text \<open>
  C18: division, at 64 bits for DIV, REM, DIVU, REMU and at 32 bits for their word forms. Quotient
  and remainder recombine to the dividend, the remainder is smaller than the divisor and a signed
  one has the sign of the dividend; dividing by zero gives all ones and the dividend, and the
  signed overflow gives the dividend and zero.
\<close>

theorem division_spec:
  fixes a b :: "'a::len word"
  shows "(if b = 0 then div_signed a b = - 1 \<and> rem_signed a b = a
      else if sint a = - (2 ^ (LENGTH('a) - 1)) \<and> sint b = - 1 then div_signed a b = a \<and> rem_signed a b = 0
      else sint (div_signed a b) * sint b + sint (rem_signed a b) = sint a
        \<and> \<bar>sint (rem_signed a b)\<bar> < \<bar>sint b\<bar>
        \<and> sgn (sint (rem_signed a b)) \<in> {0, sgn (sint a)})
    \<and> (if b = 0 then div_unsigned a b = - 1 \<and> rem_unsigned a b = a
      else uint (div_unsigned a b) * uint b + uint (rem_unsigned a b) = uint a
        \<and> uint (rem_unsigned a b) < uint b)"
proof (intro conjI)
  have m1: "sint b = - 1 \<longleftrightarrow> b = - 1" by (metis signed_word_eqI signed_minus_1)
  show "if b = 0 then div_signed a b = - 1 \<and> rem_signed a b = a
      else if sint a = - (2 ^ (LENGTH('a) - 1)) \<and> sint b = - 1 then div_signed a b = a \<and> rem_signed a b = 0
      else sint (div_signed a b) * sint b + sint (rem_signed a b) = sint a
        \<and> \<bar>sint (rem_signed a b)\<bar> < \<bar>sint b\<bar> \<and> sgn (sint (rem_signed a b)) \<in> {0, sgn (sint a)}"
  proof (cases "b = 0 \<or> sint a = - (2 ^ (LENGTH('a) - 1)) \<and> sint b = - 1")
    case True
    then show ?thesis by (auto simp: div_signed_def rem_signed_def m1)
  next
    case False
    then have q: "sint (div_signed a b) = sint a sdiv sint b" and r: "sint (rem_signed a b) = sint a smod sint b"
      using m1 by (auto intro!: sint_div_signed sint_rem_signed)
    have "sgn (sint a smod sint b) \<in> {0, sgn (sint a)}"
      using sgn_smod [of "sint a" "sint b"] by (cases "sint a smod sint b = 0") auto
    then show ?thesis
      unfolding q r using False sint_nonzero [of b] by (auto simp: sdiv_mult_smod_eq abs_smod_less)
  qed
  show "if b = 0 then div_unsigned a b = - 1 \<and> rem_unsigned a b = a
      else uint (div_unsigned a b) * uint b + uint (rem_unsigned a b) = uint a
        \<and> uint (rem_unsigned a b) < uint b"
    by (simp add: div_unsigned_def rem_unsigned_def uint_div uint_mod word_neq_0_conv word_less_def)
qed

lemma high_half:
  fixes p :: i128
  shows "ucast (signed_drop_bit 64 p) = (ucast (drop_bit 64 p) :: u64)"
  by (rule bit_word_eqI) (auto simp: bit_simps)

lemma sint_high_half:
  fixes p :: i128
  shows "sint (ucast (drop_bit 64 p) :: u64) = sint p div 2 ^ 64"
proof -
  have "sint (ucast (drop_bit 64 p) :: u64) = drop_bit 64 (sint p)"
    by (rule bit_eqI) (auto simp: bit_simps min_def not_less)
  then show ?thesis by (simp add: drop_bit_eq_div)
qed

lemma uint_high_half:
  fixes p :: i128
  shows "uint (ucast (drop_bit 64 p) :: u64) = uint p div 2 ^ 64"
proof -
  have "uint (ucast (drop_bit 64 p) :: u64) = drop_bit 64 (uint p)"
    by (rule bit_eqI) (auto simp: bit_simps dest: bit_imp_le_length)
  then show ?thesis by (simp add: drop_bit_eq_div)
qed

lemma product_halves:
  fixes p :: i128 and lo :: u64
  assumes "sint p = x" "lo = ucast p"
  shows "sint (ucast (drop_bit 64 p) :: u64) * 2 ^ 64 + uint lo = x"
proof -
  have "uint lo = x mod 2 ^ 64"
  proof -
    have "uint (ucast p :: u64) = take_bit 64 (sint p)"
      by (rule bit_eqI) (auto simp: bit_simps min_def not_less)
    with assms show ?thesis by (simp add: take_bit_eq_mod)
  qed
  then show ?thesis using assms(1) by (simp add: sint_high_half)
qed

lemma ucast_word_of_int: "ucast (word_of_int x :: i128) = (word_of_int x :: u64)"
  by transfer simp

lemma product_exact:
  fixes x y :: int
  assumes "\<bar>x\<bar> \<le> 2 ^ 63" "\<bar>y\<bar> < 2 ^ 64"
  shows "sint (word_of_int (x * y) :: i128) = x * y"
proof -
  have "\<bar>x * y\<bar> \<le> 2 ^ 63 * \<bar>y\<bar>"
    unfolding abs_mult using assms by (intro mult_right_mono) auto
  also have "\<dots> < 2 ^ 63 * 2 ^ 64" using assms by simp
  finally have "\<bar>x * y\<bar> < 2 ^ 127" by simp
  then show ?thesis
    by (intro sint_word_of_int_id) (simp_all add: abs_less_iff)
qed

text \<open>
  C19: the 128-bit product. The high word MULH, MULHSU or MULHU gives and the low word MUL gives
  are the two halves of the exact product, with each operand read as signed or unsigned as the
  instruction says.
\<close>

theorem multiplication_halves:
  "sint (mulh a b) * 2 ^ 64 + uint (a * b) = sint a * sint b
   \<and> sint (mulhsu a b) * 2 ^ 64 + uint (a * b) = sint a * uint b
   \<and> uint (mulhu a b) * 2 ^ 64 + uint (a * b) = uint a * uint b"
proof (intro conjI)
  have ab: "\<bar>sint a\<bar> \<le> 2 ^ 63" "\<bar>sint b\<bar> < 2 ^ 64" "\<bar>uint b\<bar> < 2 ^ 64"
    using sint_bounds [of a] sint_bounds [of b] uint_lt2p [of b] by (simp_all add: abs_le_iff abs_less_iff)
  have "sint (ucast (drop_bit 64 (word_of_int (sint a * y) :: i128)) :: u64) * 2 ^ 64 + uint (a * word_of_int y)
      = sint a * y" if "\<bar>y\<bar> < 2 ^ 64" for y
  proof (intro product_halves product_exact ab(1) that)
    show "a * word_of_int y = ucast (word_of_int (sint a * y) :: i128)"
      by (simp only: ucast_word_of_int) simp
  qed
  then show "sint (mulh a b) * 2 ^ 64 + uint (a * b) = sint a * sint b"
    "sint (mulhsu a b) * 2 ^ 64 + uint (a * b) = sint a * uint b"
    unfolding mulh_def mulhsu_def high_half using ab by fastforce+
  have u128: "take_bit 128 (uint w) = uint w" for w :: u64
    using uint_lt2p [of w] by (simp add: take_bit_int_eq_self)
  have "uint a * uint b < 2 ^ 64 * 2 ^ 64"
    by (intro mult_strict_mono) (use uint_lt2p [of a] uint_lt2p [of b] in simp_all)
  then have p: "uint ((ucast a :: i128) * ucast b) = uint a * uint b"
    by (simp add: uint_word_ariths unsigned_ucast_eq u128)
  have lo: "uint (a * b) = uint a * uint b mod 2 ^ 64"
    by (simp add: uint_word_ariths)
  have "uint (mulhu a b) = uint a * uint b div 2 ^ 64"
    unfolding mulhu_def p [symmetric] by (rule uint_high_half)
  then show "uint (mulhu a b) * 2 ^ 64 + uint (a * b) = uint a * uint b"
    unfolding lo by simp
qed

section \<open>Returning from traps\<close>

lemma exec_mret_bits:
  assumes "exec_mret (c, b) = (r, (c', b'))"
  shows "r = Inr (csr_get (csrs c) MEPC)" "b' = b" "regs c' = regs c" "tlb c' = tlb c" "pc c' = pc c"
    "mode c' = ucast (drop_bit 11 (csr_get (csrs c) MSTATUS AND MSTATUS_MPP))"
    "bit (csr_get (csrs c') MSTATUS) k \<longleftrightarrow>
       (if k = 3 then bit (csr_get (csrs c) MSTATUS) 7 else if k = 7 then True
        else if k = 11 \<or> k = 12 then False else bit (csr_get (csrs c) MSTATUS) k)"
proof -
  let ?m = "csr_get (csrs c) MSTATUS"
  let ?s = "(((?m AND NOT MSTATUS_MIE) OR (if bit ?m 7 then MSTATUS_MIE else 0)) OR MSTATUS_MPIE) AND NOT MSTATUS_MPP"
  have e: "exec_mret (c, b) = (Inr (csr_get (csrs c) MEPC),
     ((cset MSTATUS ?s c)\<lparr>mode := ucast (drop_bit 11 (?m AND MSTATUS_MPP))\<rparr>, b))"
    by (simp add: exec_mret_def Let_def status_tests)
  then have c': "c' = (cset MSTATUS ?s c)\<lparr>mode := ucast (drop_bit 11 (?m AND MSTATUS_MPP))\<rparr>"
    using assms by (simp only: prod.inject)
  have s: "csr_get (csrs c') MSTATUS = ?s" unfolding c' by simp
  show "r = Inr (csr_get (csrs c) MEPC)" "b' = b" "regs c' = regs c" "tlb c' = tlb c" "pc c' = pc c"
    "mode c' = ucast (drop_bit 11 (?m AND MSTATUS_MPP))"
    using e assms by (simp_all add: c')
  show "bit (csr_get (csrs c') MSTATUS) k \<longleftrightarrow>
       (if k = 3 then bit ?m 7 else if k = 7 then True else if k = 11 \<or> k = 12 then False else bit ?m k)"
    unfolding s by (simp only: status_simps) auto
qed

lemma exec_sret_bits:
  assumes "exec_sret (c, b) = (r, (c', b'))"
  shows "r = Inr (csr_get (csrs c) SEPC)" "b' = b" "regs c' = regs c" "tlb c' = tlb c" "pc c' = pc c"
    "mode c' = ucast (drop_bit 8 (csr_get (csrs c) MSTATUS AND MSTATUS_SPP))"
    "bit (csr_get (csrs c') MSTATUS) k \<longleftrightarrow>
       (if k = 1 then bit (csr_get (csrs c) MSTATUS) 5 else if k = 5 then True
        else if k = 8 then False else bit (csr_get (csrs c) MSTATUS) k)"
proof -
  let ?m = "csr_get (csrs c) MSTATUS"
  let ?s = "(((?m AND NOT MSTATUS_SIE) OR (if bit ?m 5 then MSTATUS_SIE else 0)) OR MSTATUS_SPIE) AND NOT MSTATUS_SPP"
  have e: "exec_sret (c, b) = (Inr (csr_get (csrs c) SEPC),
     ((cset MSTATUS ?s c)\<lparr>mode := ucast (drop_bit 8 (?m AND MSTATUS_SPP))\<rparr>, b))"
    by (simp add: exec_sret_def Let_def status_tests)
  then have c': "c' = (cset MSTATUS ?s c)\<lparr>mode := ucast (drop_bit 8 (?m AND MSTATUS_SPP))\<rparr>"
    using assms by (simp only: prod.inject)
  have s: "csr_get (csrs c') MSTATUS = ?s" unfolding c' by simp
  show "r = Inr (csr_get (csrs c) SEPC)" "b' = b" "regs c' = regs c" "tlb c' = tlb c" "pc c' = pc c"
    "mode c' = ucast (drop_bit 8 (?m AND MSTATUS_SPP))"
    using e assms by (simp_all add: c')
  show "bit (csr_get (csrs c') MSTATUS) k \<longleftrightarrow>
       (if k = 1 then bit ?m 5 else if k = 5 then True else if k = 8 then False else bit ?m k)"
    unfolding s by (simp only: status_simps) auto
qed

lemma previous_mode_m:
  "md < 4 \<Longrightarrow> bit w 11 = bit md 0 \<Longrightarrow> bit w 12 = bit md 1 \<Longrightarrow> (ucast (drop_bit 11 (w AND MSTATUS_MPP)) :: u8) = md"
proof (rule bit_word_eqI)
  fix k assume md: "md < 4" "bit w 11 = bit md 0" "bit w 12 = bit md 1" and k: "k < LENGTH(8)"
  have "\<not> bit md j" if "2 \<le> j" for j using not_bit_above [of md 2 j] md(1) that by simp
  moreover have "bit (ucast (drop_bit 11 (w AND MSTATUS_MPP)) :: u8) k \<longleftrightarrow> bit w (11 + k) \<and> (k = 0 \<or> k = 1)"
    using k by (simp only: bit_ucast_iff bit_drop_bit_eq bit_and_iff status_literals o_def) auto
  moreover have "k = 0 \<or> k = 1 \<or> 2 \<le> k" by linarith
  ultimately show "bit (ucast (drop_bit 11 (w AND MSTATUS_MPP)) :: u8) k = bit md k"
    using md(2,3) by auto
qed

lemma previous_mode_s: "(ucast (drop_bit 8 (w AND MSTATUS_SPP)) :: u8) = of_bool (bit w 8)"
proof (rule bit_word_eqI)
  fix k assume "k < LENGTH(8)"
  then have "bit (ucast (drop_bit 8 (w AND MSTATUS_SPP)) :: u8) k \<longleftrightarrow> bit w (8 + k) \<and> k = 0"
    by (simp only: bit_ucast_iff bit_drop_bit_eq bit_and_iff status_literals o_def) auto
  then show "bit (ucast (drop_bit 8 (w AND MSTATUS_SPP)) :: u8) k = bit (of_bool (bit w 8) :: u8) k"
    by (auto simp: bit_simps bit_1_iff)
qed

lemma enter_keeps:
  "regs (snd (enter_m c v t)) = regs c" "tlb (snd (enter_m c v t)) = tlb c"
  "regs (snd (enter_s c v t)) = regs c" "tlb (snd (enter_s c v t)) = tlb c"
  by (simp_all add: enter_m_def enter_s_def Let_def)

text \<open>
  C9: trap and return. After a trap with a cause below 64, on a hart whose mode is a two-bit value,
  the return instruction of the mode that took it (MRET for machine mode, SRET for supervisor
  mode) continues at the interrupted pc with the registers it had, in the interrupted mode; only a
  hart interrupted in the reserved mode 2 by a delegated trap is left in user mode, since the
  supervisor's previous-mode field has one bit. The interrupt enable of the trap's mode is back, its previous-enable
  bit is set and its previous-mode field cleared, and every other status bit is as before the trap.
\<close>

theorem trap_return:
  assumes "unat cause < 64" "mode c < 4"
    and "raise_trap c cause is_interrupt tval = (target, c1)"
    and "(if mode c1 = PRIV_M then exec_mret else exec_sret) (c1, b) = (r, (c2, b2))"
  shows "r = Inr (pc c) \<and> mode c2 = (if mode c = 2 \<and> mode c1 \<noteq> PRIV_M then PRIV_U else mode c)
    \<and> regs c2 = regs c \<and> tlb c2 = tlb c \<and> b2 = b
    \<and> (\<forall>k. bit (csr_get (csrs c2) MSTATUS) k =
         (if mode c1 = PRIV_M
          then (if k = 7 then True else if k = 11 \<or> k = 12 then False else bit (csr_get (csrs c) MSTATUS) k)
          else (if k = 5 then True else if k = 8 then False else bit (csr_get (csrs c) MSTATUS) k)))"
proof -
  define v where "v = (if is_interrupt then cause OR push_bit 63 1 else cause)"
  show ?thesis
  proof (cases "delegated c cause is_interrupt")
    case True
    then have c1: "c1 = snd (enter_s c v tval)" and md: "mode c \<noteq> PRIV_M"
      using assms(3) raise_trap_cases [OF assms(1)] by (auto simp: Let_def v_def delegated_def dest: arg_cong [of _ _ snd])
    then have "mode c1 = PRIV_S" by (simp only: enter_s_csrs)
    then have m1: "mode c1 = PRIV_M \<longleftrightarrow> False" by simp
    have ret: "exec_sret (c1, b) = (r, (c2, b2))" using assms(4) by (simp add: m1)
    note bits = exec_sret_bits [OF ret]
    have md': "of_bool (mode c = PRIV_S) = (if mode c = 2 then PRIV_U else mode c)"
      using md two_bit_modes [OF assms(2)] by auto
    have "mode c2 = (if mode c = 2 then PRIV_U else mode c)"
      unfolding bits(6) previous_mode_s c1 enter_s_status using md' by simp
    then show ?thesis
      unfolding m1 if_False simp_thms bits(1-5,7) unfolding c1 enter_s_status enter_s_csrs enter_keeps by simp
  next
    case False
    then have c1: "c1 = snd (enter_m c v tval)"
      using assms(3) raise_trap_cases [OF assms(1)] by (simp add: Let_def v_def)
    then have m1: "mode c1 = PRIV_M \<longleftrightarrow> True" by (simp only: enter_m_csrs simp_thms)
    have ret: "exec_mret (c1, b) = (r, (c2, b2))" using assms(4) by (simp only: m1 if_True)
    note bits = exec_mret_bits [OF ret]
    have "mode c2 = mode c"
      unfolding bits(6) c1 by (rule previous_mode_m [OF assms(2)]) (simp_all only: enter_m_status [OF assms(2)], simp_all)
    then show ?thesis
      unfolding m1 if_True simp_thms if_False bits(1-5,7) unfolding c1 enter_m_status [OF assms(2)] enter_m_csrs enter_keeps by simp
  qed
qed

theorem trap_return_witness:
  "\<exists>target c1 r c2 b2. raise_trap ((cpu_new 0)\<lparr>mode := PRIV_S, pc := 0x80000000\<rparr>) 7 True 0 = (target, c1)
     \<and> exec_mret (c1, memory_bus []) = (r, (c2, b2)) \<and> r = Inr 0x80000000 \<and> mode c2 = PRIV_S"
proof -
  let ?c = "(cpu_new 0)\<lparr>mode := PRIV_S, pc := 0x80000000\<rparr>"
  obtain target c1 where t: "raise_trap ?c 7 True 0 = (target, c1)" by fastforce
  obtain r c2 b2 where ret: "exec_mret (c1, memory_bus []) = (r, (c2, b2))" by (metis surj_pair)
  have "\<not> delegated ?c 7 True" by (simp add: delegated_def)
  then have "c1 = snd (enter_m ?c (7 OR push_bit 63 1) 0)"
    using t raise_trap_cases [of 7 ?c True 0] by (simp add: Let_def)
  then have m: "mode c1 = PRIV_M" by (simp only: enter_m_csrs)
  have "(if mode c1 = PRIV_M then exec_mret else exec_sret) (c1, memory_bus []) = (r, (c2, b2))"
    using ret m by simp
  from trap_return [OF _ _ t this] t ret show ?thesis by simp
qed

end
