(* ===== verification/Rvc.thy ===== *)
theory Rvc
  imports Execute
begin

text \<open>
  \<^verbatim>\<open>rvc.rs\<close>: the compressed instructions, with the field and immediate accessors of
  \<open>CInstruction\<close> and the execution of each quadrant.
\<close>

record cinstruction =
  c_value :: u16

definition cinstruction_new :: "u16 \<Rightarrow> cinstruction" where
  "cinstruction_new v = \<lparr>c_value = v\<rparr>"

definition bits_at :: "u16 \<Rightarrow> nat \<Rightarrow> nat \<Rightarrow> u32" where
  "bits_at x pos nbits = drop_bit pos (ucast x :: u32) AND (push_bit nbits 1 - 1)"

definition c_sext :: "u32 \<Rightarrow> nat \<Rightarrow> i64" where
  "c_sext v bits =
     (let shift = 32 - bits in scast (signed_drop_bit shift (push_bit shift v) :: u32))"

definition c_op :: "cinstruction \<Rightarrow> u32" where
  "c_op i = bits_at (c_value i) 0 2"

definition c_rd :: "cinstruction \<Rightarrow> nat" where
  "c_rd i = unat (bits_at (c_value i) 7 5)"

definition c_rs1 :: "cinstruction \<Rightarrow> nat" where
  "c_rs1 i = c_rd i"

definition c_rs2 :: "cinstruction \<Rightarrow> nat" where
  "c_rs2 i = unat (bits_at (c_value i) 2 5)"

definition rs1_prime :: "cinstruction \<Rightarrow> nat" where
  "rs1_prime i = unat (bits_at (c_value i) 7 3) + 8"

definition rs2_prime :: "cinstruction \<Rightarrow> nat" where
  "rs2_prime i = unat (bits_at (c_value i) 2 3) + 8"

definition c_funct3 :: "cinstruction \<Rightarrow> u32" where
  "c_funct3 i = bits_at (c_value i) 13 3"

definition c_funct6 :: "cinstruction \<Rightarrow> u32" where
  "c_funct6 i = bits_at (c_value i) 10 6"

definition c_funct2 :: "cinstruction \<Rightarrow> u32" where
  "c_funct2 i = bits_at (c_value i) 5 2"

definition c_bit12 :: "cinstruction \<Rightarrow> u32" where
  "c_bit12 i = bits_at (c_value i) 12 1"

definition nz :: "i64 \<Rightarrow> i64 res" where
  "nz v = (if v = 0 then error Zero_immediate else Inr v)"

definition uimm_5_0 :: "cinstruction \<Rightarrow> u32" where
  "uimm_5_0 i = push_bit 5 (bits_at (c_value i) 12 1) OR bits_at (c_value i) 2 5"

definition imm_5_0 :: "cinstruction \<Rightarrow> i64" where
  "imm_5_0 i = c_sext (uimm_5_0 i) 6"

definition nzimm_5_0 :: "cinstruction \<Rightarrow> i64 res" where
  "nzimm_5_0 i = nz (imm_5_0 i)"

definition c_shamt :: "cinstruction \<Rightarrow> u32 res" where
  "c_shamt i = (let v = uimm_5_0 i in if v = 0 then error Zero_immediate else Inr v)"

definition nzuimm_9_2 :: "cinstruction \<Rightarrow> u32 res" where
  "nzuimm_9_2 i =
     (let v = push_bit 4 (bits_at (c_value i) 11 2)
              OR push_bit 6 (bits_at (c_value i) 7 4)
              OR push_bit 2 (bits_at (c_value i) 6 1)
              OR push_bit 3 (bits_at (c_value i) 5 1)
      in if v = 0 then error Zero_immediate else Inr v)"

definition nzimm_9_4 :: "cinstruction \<Rightarrow> i64 res" where
  "nzimm_9_4 i =
     (let v = c_sext (push_bit 9 (bits_at (c_value i) 12 1)
                      OR push_bit 4 (bits_at (c_value i) 6 1)
                      OR push_bit 6 (bits_at (c_value i) 5 1)
                      OR push_bit 7 (bits_at (c_value i) 3 2)
                      OR push_bit 5 (bits_at (c_value i) 2 1)) 10
      in nz v)"

definition offset_6_2 :: "cinstruction \<Rightarrow> u32" where
  "offset_6_2 i =
     push_bit 3 (bits_at (c_value i) 10 3) OR push_bit 2 (bits_at (c_value i) 6 1)
     OR push_bit 6 (bits_at (c_value i) 5 1)"

definition offset_7_3 :: "cinstruction \<Rightarrow> u32" where
  "offset_7_3 i =
     push_bit 3 (bits_at (c_value i) 10 3) OR push_bit 6 (bits_at (c_value i) 5 2)"

definition offset_8_1 :: "cinstruction \<Rightarrow> i64" where
  "offset_8_1 i =
     c_sext (push_bit 8 (bits_at (c_value i) 12 1)
             OR push_bit 3 (bits_at (c_value i) 10 2)
             OR push_bit 6 (bits_at (c_value i) 5 2)
             OR push_bit 1 (bits_at (c_value i) 3 2)
             OR push_bit 5 (bits_at (c_value i) 2 1)) 9"

definition offset_8_3_ldsp :: "cinstruction \<Rightarrow> u32" where
  "offset_8_3_ldsp i =
     push_bit 5 (bits_at (c_value i) 12 1) OR push_bit 3 (bits_at (c_value i) 5 2)
     OR push_bit 6 (bits_at (c_value i) 2 3)"

definition offset_8_3_sdsp :: "cinstruction \<Rightarrow> u32" where
  "offset_8_3_sdsp i =
     push_bit 3 (bits_at (c_value i) 10 3) OR push_bit 6 (bits_at (c_value i) 7 3)"

definition offset_11_1 :: "cinstruction \<Rightarrow> i64" where
  "offset_11_1 i =
     c_sext (push_bit 11 (bits_at (c_value i) 12 1)
             OR push_bit 4 (bits_at (c_value i) 11 1)
             OR push_bit 8 (bits_at (c_value i) 9 2)
             OR push_bit 10 (bits_at (c_value i) 8 1)
             OR push_bit 6 (bits_at (c_value i) 7 1)
             OR push_bit 7 (bits_at (c_value i) 6 1)
             OR push_bit 1 (bits_at (c_value i) 3 3)
             OR push_bit 5 (bits_at (c_value i) 2 1)) 12"

section \<open>Execution\<close>

definition illegal_c_instruction :: "cinstruction \<Rightarrow> (machine, 'a) op" where
  "illegal_c_instruction i = (\<lambda>(c, b). (error (Not_implemented_c (c_value i) (pc c)), (c, b)))"

text \<open>\<open>regs.write(r, f(regs.read(r)))\<close> and the default next pc: the shape of the register arms.\<close>

definition c_update :: "nat \<Rightarrow> (u64 \<Rightarrow> u64) \<Rightarrow> u64 \<Rightarrow> (machine, u64) op" where
  "c_update r f next_pc =
     and_then (get_reg r) (\<lambda>a. and_then (set_reg r (f a)) (\<lambda>_. ok next_pc))"

definition rvc_quadrant0 :: "cinstruction \<Rightarrow> u64 \<Rightarrow> (machine, u64) op" where
  "rvc_quadrant0 i next_pc =
     (let f3 = c_funct3 i in
      if f3 = 0b000 then
        and_then (lift_res (nzuimm_9_2 i)) (\<lambda>imm.
        and_then (get_reg 2) (\<lambda>sp.
        and_then (set_reg (rs2_prime i) (sp + ucast imm)) (\<lambda>_. ok next_pc)))
      else if f3 = 0b010 then
        and_then (get_reg (rs1_prime i)) (\<lambda>base.
        and_then (cpu_read (base + ucast (offset_6_2 i)) 4) (\<lambda>v.
        and_then (set_reg (rs2_prime i) (c_sext (ucast v) 32)) (\<lambda>_. ok next_pc)))
      else if f3 = 0b011 then
        and_then (get_reg (rs1_prime i)) (\<lambda>base.
        and_then (cpu_read (base + ucast (offset_7_3 i)) 8) (\<lambda>v.
        and_then (set_reg (rs2_prime i) v) (\<lambda>_. ok next_pc)))
      else if f3 = 0b110 then
        and_then (get_reg (rs1_prime i)) (\<lambda>base.
        and_then (get_reg (rs2_prime i)) (\<lambda>v.
        and_then (cpu_write (base + ucast (offset_6_2 i)) 4 v) (\<lambda>_. ok next_pc)))
      else if f3 = 0b111 then
        and_then (get_reg (rs1_prime i)) (\<lambda>base.
        and_then (get_reg (rs2_prime i)) (\<lambda>v.
        and_then (cpu_write (base + ucast (offset_7_3 i)) 8 v) (\<lambda>_. ok next_pc)))
      else illegal_c_instruction i)"

text \<open>The \<open>funct3 = 0b100\<close> arm of quadrant 1: shifts, C.ANDI and the register-register group.\<close>

definition rvc_alu :: "cinstruction \<Rightarrow> u64 \<Rightarrow> (machine, u64) op" where
  "rvc_alu i next_pc =
     (let funct6 = c_funct6 i; sel = funct6 AND 0b11; r = rs1_prime i in
      if sel = 0b00 then
        and_then (lift_res (c_shamt i)) (\<lambda>sh. c_update r (drop_bit (unat sh)) next_pc)
      else if sel = 0b01 then
        and_then (lift_res (c_shamt i)) (\<lambda>sh. c_update r (signed_drop_bit (unat sh)) next_pc)
      else if sel = 0b10 then c_update r (\<lambda>a. a AND imm_5_0 i) next_pc
      else if sel = 0b11 then
        and_then (get_reg r) (\<lambda>a.
        and_then (get_reg (rs2_prime i)) (\<lambda>b.
        let a32 = (ucast a :: u32); b32 = (ucast b :: u32); f2 = c_funct2 i in
        and_then
          (if funct6 AND 0b100 = 0 then
             (if f2 = 0b00 then set_reg r (a - b)
              else if f2 = 0b01 then set_reg r (a XOR b)
              else if f2 = 0b10 then set_reg r (a OR b)
              else if f2 = 0b11 then set_reg r (a AND b)
              else fail (Panic Unreachable))
           else
             (if f2 = 0b00 then set_reg r (scast (a32 - b32))
              else if f2 = 0b01 then set_reg r (scast (a32 + b32))
              else illegal_c_instruction i)) (\<lambda>_.
        ok next_pc)))
      else fail (Panic Unreachable))"

definition rvc_quadrant1 :: "cinstruction \<Rightarrow> u64 \<Rightarrow> u64 \<Rightarrow> (machine, u64) op" where
  "rvc_quadrant1 i pc0 next_pc =
     (let f3 = c_funct3 i; d = c_rd i in
      if f3 = 0b000 then c_update d (\<lambda>a. a + imm_5_0 i) next_pc
      else if f3 = 0b001 then
        (if d = 0 then illegal_c_instruction i
         else c_update d (\<lambda>a. scast ((ucast a :: u32) + ucast (imm_5_0 i))) next_pc)
      else if f3 = 0b010 then
        (if d = 0 then illegal_c_instruction i
         else and_then (set_reg d (imm_5_0 i)) (\<lambda>_. ok next_pc))
      else if f3 = 0b011 then
        (if d = 2 then
           and_then (lift_res (nzimm_9_4 i)) (\<lambda>imm. c_update 2 (\<lambda>sp. sp + imm) next_pc)
         else if d = 0 \<or> d = 2 then illegal_c_instruction i
         else
           and_then (lift_res (nzimm_5_0 i)) (\<lambda>imm.
           and_then (set_reg d (push_bit 12 imm)) (\<lambda>_. ok next_pc)))
      else if f3 = 0b100 then rvc_alu i next_pc
      else if f3 = 0b101 then ok (pc0 + offset_11_1 i)
      else if f3 = 0b110 then
        and_then (get_reg (rs1_prime i)) (\<lambda>a.
        ok (if a = 0 then pc0 + offset_8_1 i else next_pc))
      else if f3 = 0b111 then
        and_then (get_reg (rs1_prime i)) (\<lambda>a.
        ok (if a \<noteq> 0 then pc0 + offset_8_1 i else next_pc))
      else illegal_c_instruction i)"

definition rvc_quadrant2 :: "cinstruction \<Rightarrow> u64 \<Rightarrow> u64 \<Rightarrow> (machine, u64) op" where
  "rvc_quadrant2 i pc0 next_pc =
     (let f3 = c_funct3 i; d = c_rd i in
      if f3 = 0b000 then
        and_then (lift_res (c_shamt i)) (\<lambda>sh. c_update d (push_bit (unat sh)) next_pc)
      else if f3 = 0b011 then
        (if d = 0 then illegal_c_instruction i
         else
           and_then (get_reg 2) (\<lambda>sp.
           and_then (cpu_read (sp + ucast (offset_8_3_ldsp i)) 8) (\<lambda>v.
           and_then (set_reg d v) (\<lambda>_. ok next_pc))))
      else if f3 = 0b100 then
        (if c_bit12 i = 0 then
           (if c_rs2 i \<noteq> 0 then
              (if c_rs1 i = 0 then illegal_c_instruction i
               else
                 and_then (get_reg (c_rs2 i)) (\<lambda>v.
                 and_then (set_reg (c_rs1 i) v) (\<lambda>_. ok next_pc)))
            else
              (if c_rs1 i = 0 then illegal_c_instruction i else get_reg (c_rs1 i)))
         else if c_rs2 i \<noteq> 0 then
           (if d = 0 then illegal_c_instruction i
            else
              and_then (get_reg d) (\<lambda>a.
              and_then (get_reg (c_rs2 i)) (\<lambda>b.
              and_then (set_reg d (a + b)) (\<lambda>_. ok next_pc))))
         else if c_rs1 i \<noteq> 0 then
           and_then (get_reg (c_rs1 i)) (\<lambda>target.
           and_then (set_reg 1 (pc0 + 2)) (\<lambda>_. ok target))
         else illegal_c_instruction i)
      else if f3 = 0b111 then
        and_then (get_reg 2) (\<lambda>sp.
        and_then (get_reg (c_rs2 i)) (\<lambda>v.
        and_then (cpu_write (sp + ucast (offset_8_3_sdsp i)) 8 v) (\<lambda>_. ok next_pc)))
      else illegal_c_instruction i)"

definition rvc_execute :: "cinstruction \<Rightarrow> (machine, u64) op" where
  "rvc_execute i =
     and_then (gets (\<lambda>(c, b). pc c)) (\<lambda>pc0.
     let default_next = pc0 + 2 in
     if c_op i = 0b00 then rvc_quadrant0 i default_next
     else if c_op i = 0b01 then rvc_quadrant1 i pc0 default_next
     else if c_op i = 0b10 then rvc_quadrant2 i pc0 default_next
     else illegal_c_instruction i)"

end
