(* ===== verification/Cpu.thy ===== *)
theory Cpu
  imports Rvc
begin

text \<open>
  \<^verbatim>\<open>cpu.rs\<close>: fetch with the timer tick, the UART poll and the interrupt check in front of it,
  and the execute step.
\<close>

datatype decoded_instruction = Full instruction | Compressed cinstruction

abbreviation (input) UART_POLL_INTERVAL :: int where "UART_POLL_INTERVAL \<equiv> 4096"

text \<open>The CLINT tick through the hart's handle.\<close>

definition tick_clint :: "(machine, unit) op" where
  "tick_clint = (\<lambda>(c, b).
     case cpu_clint c of
       None \<Rightarrow> (Inr (), (c, b))
     | Some i \<Rightarrow>
         (Inr (), (c, b\<lparr>heap := (heap b)\<lparr>clints := (clints (heap b))(i := tick (clints (heap b) i))\<rparr>\<rparr>)))"

text \<open>The UART poll, every \<^const>\<open>UART_POLL_INTERVAL\<close> fetches.\<close>

definition poll_uart :: "(machine, unit) op" where
  "poll_uart = (\<lambda>(c, b).
     case cpu_uart c of
       None \<Rightarrow> (Inr (), (c, b))
     | Some i \<Rightarrow>
         (let n = uart_poll_countdown c - 1 in
          if n \<le> 0 then
            (case poll_input (uarts (heap b) i) of
               (r, u) \<Rightarrow>
                 (let b' = b\<lparr>heap := (heap b)\<lparr>uarts := (uarts (heap b))(i := u)\<rparr>\<rparr> in
                  case r of
                    Inl e \<Rightarrow> (Inl e, (c\<lparr>uart_poll_countdown := n\<rparr>, b'))
                  | Inr _ \<Rightarrow> (Inr (), (c\<lparr>uart_poll_countdown := UART_POLL_INTERVAL\<rparr>, b'))))
          else (Inr (), (c\<lparr>uart_poll_countdown := n\<rparr>, b))))"

definition fetch :: "(machine, decoded_instruction) op" where
  "fetch =
     and_then tick_clint (\<lambda>_.
     and_then poll_uart (\<lambda>_.
     and_then check_interrupt (\<lambda>_.
     and_then (gets (\<lambda>(c, b). pc c)) (\<lambda>pc0.
     and_then (translate pc0 Access_X) (\<lambda>pa.
     and_then (on_snd (bus_read pa 4)) (\<lambda>v.
     let word = (ucast v :: u32) in
     ok (if word AND 0b11 = 0b11 then Full (instruction_new word)
         else Compressed (cinstruction_new (ucast word)))))))))"

definition cpu_execute :: "instruction \<Rightarrow> (machine, unit) op" where
  "cpu_execute i =
     and_then (execute i) (\<lambda>next_pc. on_cpu (\<lambda>c. c\<lparr>pc := next_pc\<rparr>))"

definition execute_compressed :: "cinstruction \<Rightarrow> (machine, unit) op" where
  "execute_compressed i =
     and_then (rvc_execute i) (\<lambda>next_pc. on_cpu (\<lambda>c. c\<lparr>pc := next_pc\<rparr>))"

definition step :: "(machine, unit) op" where
  "step =
     and_then fetch (\<lambda>d.
     case d of Full i \<Rightarrow> cpu_execute i | Compressed i \<Rightarrow> execute_compressed i)"

end
