(* ===== verification/Emulator.thy ===== *)
theory Emulator
  imports Cpu
begin

text \<open>
  \<^verbatim>\<open>emulator.rs\<close>: the two machines and their run loops. A run ends only with an error; the
  loops are partial functions whose \<open>None\<close> is a run that goes on forever.
\<close>

abbreviation (input) STACK_SIZE :: u64 where "STACK_SIZE \<equiv> 0x08000000"

record emulator =
  emu_bus :: bus
  emu_cpus :: "cpu list"

text \<open>\<open>(n + 0xfff) & !0xfff\<close>.\<close>

definition page_align :: "u64 \<Rightarrow> u64" where
  "page_align n = (n + 0xfff) AND NOT 0xfff"

definition emulator_new :: "heap \<Rightarrow> u8 list \<Rightarrow> u64 \<Rightarrow> emulator res" where
  "emulator_new h program address =
     (let r = ram_with_content (of_nat (length program)) program;
          stack_begin = page_align (ram_len r) + address;
          stk = ram_new STACK_SIZE
      in case and_then (set_ram r address) (\<lambda>_. set_stack stk stack_begin) (bus_new h) of
           (Inl e, _) \<Rightarrow> Inl e
         | (Inr _, b) \<Rightarrow> Inr \<lparr>emu_bus = b, emu_cpus = [(cpu_new 0)\<lparr>pc := address\<rparr>]\<rparr>)"

partial_function (option) emulator_run :: "cpu \<Rightarrow> bus \<Rightarrow> (fault \<times> machine) option" where
  "emulator_run c b =
     (case step (c, b) of
        (Inl e, m) \<Rightarrow> Some (e, m)
      | (Inr _, m) \<Rightarrow> emulator_run (fst m) (snd m))"

section \<open>The xv6 machine\<close>

abbreviation (input) CLINT_BASE :: u64 where "CLINT_BASE \<equiv> 0x02000000"
abbreviation (input) CLINT_SIZE :: u64 where "CLINT_SIZE \<equiv> 0x10000"
abbreviation (input) UART_BASE :: u64 where "UART_BASE \<equiv> 0x10000000"
abbreviation (input) UART_SIZE :: u64 where "UART_SIZE \<equiv> 0x100"
abbreviation (input) UART0_IRQ :: u32 where "UART0_IRQ \<equiv> 10"
abbreviation (input) VIRTIO_DISK_BASE :: u64 where "VIRTIO_DISK_BASE \<equiv> 0x10001000"
abbreviation (input) VIRTIO_DISK_SIZE_DEFAULT :: u64 where "VIRTIO_DISK_SIZE_DEFAULT \<equiv> 0x800000"
abbreviation (input) VIRTIO0_IRQ :: u32 where "VIRTIO0_IRQ \<equiv> 1"
abbreviation (input) PLIC_BASE :: u64 where "PLIC_BASE \<equiv> 0x0C000000"
abbreviation (input) PLIC_SIZE :: u64 where "PLIC_SIZE \<equiv> 0x0FFFFFFF - PLIC_BASE + 1"
abbreviation (input) BOOTLOADER_ADDR :: u64 where "BOOTLOADER_ADDR \<equiv> 0x1000"

text \<open>\<open>hex_decode\<close> of the literal \<open>BOOTLOADER_HEX\<close>.\<close>

definition hex_digit :: "char \<Rightarrow> u8" where
  "hex_digit ch =
     (let n = (of_char ch :: nat) in
      if 97 \<le> n then of_nat (n - 87) else if 65 \<le> n then of_nat (n - 55) else of_nat (n - 48))"

fun hex_decode :: "string \<Rightarrow> u8 list" where
  "hex_decode (hi # lo # rest) = (hex_digit hi * 16 + hex_digit lo) # hex_decode rest"
| "hex_decode _ = []"

definition BOOTLOADER_HEX :: string where
  "BOOTLOADER_HEX =
     ''9702000013868202732540f183b5020283b282016780020000000080000000000000008700000000''"

text \<open>One fresh cell of each kind at address 0 of the store: the four \<open>Rc::new(RefCell::new(_))\<close>,
  with the UART and VirtIO status closures registered at the PLIC.\<close>

definition xv6_heap ::
  "heap \<Rightarrow> u8 list option \<Rightarrow> read_answer list option \<Rightarrow> u8 list option \<Rightarrow> nat \<Rightarrow> heap" where
  "xv6_heap h uart_out uart_inp disk_image ncpu =
     h\<lparr>clints := (clints h)(0 := clint_new CLINT_SIZE ncpu),
       uarts := (uarts h)(0 := uart_new UART_SIZE uart_out uart_inp),
       virtios := (virtios h)(0 := Available (virtio_new VIRTIO_DISK_SIZE_DEFAULT disk_image)),
       plics := (plics h)(0 := register_irq VIRTIO0_IRQ (Virtio_source 0)
                                 (register_irq UART0_IRQ (Uart_source 0) (plic_new PLIC_SIZE)))\<rparr>"

definition xv6_cpu :: "u64 \<Rightarrow> cpu" where
  "xv6_cpu hart =
     (cpu_new hart)\<lparr>cpu_clint := Some 0, cpu_uart := Some 0, cpu_plic := Some 0,
                    pc := BOOTLOADER_ADDR\<rparr>"

definition xv6_bus :: "u8 list \<Rightarrow> u64 \<Rightarrow> (bus, unit) op" where
  "xv6_bus program address =
     (let stack_begin = page_align (of_nat (length program)) + address;
          r = ram_with_content (stack_begin - address) program;
          stk = ram_new STACK_SIZE;
          boot = hex_decode BOOTLOADER_HEX
      in
      and_then (set_ram r address) (\<lambda>_.
      and_then (set_stack stk stack_begin) (\<lambda>_.
      and_then (set_clint 0 CLINT_BASE) (\<lambda>_.
      and_then (set_uart 0 UART_BASE) (\<lambda>_.
      and_then (set_virtio 0 VIRTIO_DISK_BASE) (\<lambda>_.
      and_then (set_plic 0 PLIC_BASE) (\<lambda>_.
      set_bootloader (ram_with_content (of_nat (length boot)) boot) BOOTLOADER_ADDR)))))))"

definition xv6_new_smp ::
  "heap \<Rightarrow> u8 list \<Rightarrow> u64 \<Rightarrow> u8 list option \<Rightarrow> read_answer list option \<Rightarrow> u8 list option \<Rightarrow> u64
     \<Rightarrow> emulator res" where
  "xv6_new_smp h program address uart_out uart_inp disk_image ncpu =
     (let max_ncpu = of_nat MAX_CONTEXTS div 2 in
      if ncpu = 0 then error Ncpu_zero
      else if max_ncpu < ncpu then error (Ncpu_exceeds ncpu max_ncpu)
      else
        (case xv6_bus program address
                (bus_new (xv6_heap h uart_out uart_inp disk_image (unat ncpu))) of
           (Inl e, _) \<Rightarrow> Inl e
         | (Inr _, b) \<Rightarrow>
             Inr \<lparr>emu_bus = b,
                  emu_cpus = map (\<lambda>i. xv6_cpu (of_nat i)) [0..<unat ncpu]\<rparr>))"

definition xv6_new ::
  "heap \<Rightarrow> u8 list \<Rightarrow> u64 \<Rightarrow> u8 list option \<Rightarrow> read_answer list option \<Rightarrow> u8 list option
     \<Rightarrow> emulator res" where
  "xv6_new h program address uart_out uart_inp disk_image =
     xv6_new_smp h program address uart_out uart_inp disk_image 1"

text \<open>One round of \<open>for cpu in &mut self.cpus\<close>: every hart steps once, in order, until one errs.\<close>

fun round_robin :: "cpu list \<Rightarrow> bus \<Rightarrow> unit res \<times> (cpu list \<times> bus)" where
  "round_robin [] b = (Inr (), ([], b))"
| "round_robin (c # cs) b =
     (case step (c, b) of
        (Inl e, (c', b')) \<Rightarrow> (Inl e, (c' # cs, b'))
      | (Inr _, (c', b')) \<Rightarrow>
          (case round_robin cs b' of (r, (cs', b'')) \<Rightarrow> (r, (c' # cs', b''))))"

partial_function (option) xv6_run :: "cpu list \<Rightarrow> bus \<Rightarrow> (fault \<times> (cpu list \<times> bus)) option" where
  "xv6_run cs b =
     (case round_robin cs b of
        (Inl e, s) \<Rightarrow> Some (e, s)
      | (Inr _, s) \<Rightarrow> xv6_run (fst s) (snd s))"

section \<open>Construction\<close>

lemma clear_low_12: "(x :: u64) AND NOT 0xfff = push_bit 12 (drop_bit 12 x)"
proof -
  have m: "(0xfff :: u64) = mask 12" by (simp add: mask_eq_exp_minus_1)
  show ?thesis unfolding m by (rule bit_word_eqI) (auto simp: bit_simps)
qed

lemma unat_page_align:
  assumes "unat n + 0xfff < 2 ^ 64"
  shows "unat (page_align n) = (unat n + 0xfff) div 4096 * 4096"
proof -
  have u: "unat (n + 0xfff) = unat n + 0xfff" using assms unat_add_no_wrap [of n "0xfff"] by simp
  have "unat (push_bit 12 (drop_bit 12 (n + 0xfff))) = unat (n + 0xfff) div 4096 * 4096"
  proof -
    have "unat (n + 0xfff) div 4096 * 4096 < 2 ^ 64"
      using unsigned_less [of "n + 0xfff", where 'a = nat]
      by (intro le_less_trans [OF div_times_less_eq_dividend]) simp
    then show ?thesis
      by (simp add: push_bit_eq_mult drop_bit_eq_div unat_word_ariths unat_div)
  qed
  then show ?thesis unfolding page_align_def clear_low_12 u .
qed

lemma page_align_bounds:
  assumes "0 < len" "len + 0xfff < 2 ^ 64"
  shows "len \<le> unat (page_align (of_nat len))" "unat (page_align (of_nat len)) \<le> len + 0xfff" "page_align (of_nat len) \<noteq> 0"
proof -
  have "unat (of_nat len :: u64) = len" using assms by (simp add: unat_of_nat)
  then have u: "unat (page_align (of_nat len)) = (len + 0xfff) div 4096 * 4096"
    using unat_page_align [of "of_nat len"] assms by simp
  show "len \<le> unat (page_align (of_nat len))" "unat (page_align (of_nat len)) \<le> len + 0xfff" unfolding u by auto
  then show "page_align (of_nat len) \<noteq> 0" using assms(1) by (metis leD unat_0)
qed

text \<open>Reserving before the first range and after the last one.\<close>

lemma reserve_at:
  assumes "sz \<noteq> 0" "unat start + unat sz < 2 ^ 64" "list_all (\<lambda>s. s < start) before"
    and "length xs = length before" "length ys = length rest"
    and "start + sz \<le> s"
    and "ranges b = \<lparr>starts = before @ s # rest, sizes = xs @ z # ys\<rparr>"
  shows "reserve start sz b = (Inr \<lparr>range_start = start, range_size = sz\<rparr>,
    b\<lparr>ranges := \<lparr>starts = before @ start # s # rest, sizes = xs @ sz # z # ys\<rparr>\<rparr>)"
proof -
  have lt: "start < s"
    using assms(1,2,6) unat_add_no_wrap [of start sz] unat_gt_0 [of sz]
    by (simp add: word_less_nat_alt word_le_nat_alt)
  have "takeWhile (\<lambda>s. s < start) (before @ s # rest) = before"
    using assms(3) lt by (simp add: takeWhile_append2 list_all_iff less_asym')
  moreover have "checked_add start sz \<noteq> None" using assms(2) by (simp add: checked_add_def)
  ultimately show ?thesis
    using assms lt by (auto simp: reserve_def add_range_def partition_point_def Let_def vec_insert_def nth_append not_less)
qed

lemma reserve_end:
  assumes "sz \<noteq> 0" "unat start + unat sz < 2 ^ 64" "list_all (\<lambda>s. s < start) before" "length xs = length before"
    and "before \<noteq> [] \<Longrightarrow> last before + last xs \<le> start"
    and "ranges b = \<lparr>starts = before, sizes = xs\<rparr>"
  shows "reserve start sz b = (Inr \<lparr>range_start = start, range_size = sz\<rparr>,
    b\<lparr>ranges := \<lparr>starts = before @ [start], sizes = xs @ [sz]\<rparr>\<rparr>)"
proof -
  have "partition_point (\<lambda>s. s < start) before = length before"
    unfolding partition_point_def using assms(3) by (simp add: list_all_iff takeWhile_eq_all_conv [THEN iffD2])
  moreover have "checked_add start sz \<noteq> None" using assms(2) by (simp add: checked_add_def)
  moreover have "before \<noteq> [] \<Longrightarrow> before ! (length before - 1) + xs ! (length before - 1) \<le> start"
    using assms(4,5) last_conv_nth [of before] last_conv_nth [of xs] by (cases xs) auto
  ultimately show ?thesis
    using assms by (cases before) (auto simp: reserve_def add_range_def Let_def not_less)
qed


definition xv6_map :: "u64 \<Rightarrow> u64 \<Rightarrow> (u64 \<times> u64) list" where
  "xv6_map address sz =
     [(BOOTLOADER_ADDR, 40), (CLINT_BASE, CLINT_SIZE), (PLIC_BASE, PLIC_SIZE), (UART_BASE, UART_SIZE),
      (VIRTIO_DISK_BASE, 0x1000), (address, sz), (address + sz, STACK_SIZE)]"

definition boot_image :: "u8 list" where
  "boot_image = hex_decode BOOTLOADER_HEX"

lemma boot_image_bytes:
  "boot_image =
    [0x97, 0x02, 0x00, 0x00, 0x13, 0x86, 0x82, 0x02, 0x73, 0x25, 0x40, 0xf1, 0x83, 0xb5, 0x02, 0x02,
     0x83, 0xb2, 0x82, 0x01, 0x67, 0x80, 0x02, 0x00, 0x00, 0x00, 0x00, 0x80, 0x00, 0x00, 0x00, 0x00,
     0x00, 0x00, 0x00, 0x87, 0x00, 0x00, 0x00, 0x00]"
  unfolding boot_image_def BOOTLOADER_HEX_def by code_simp


lemma length_boot_image: "length boot_image = 40"
  by (simp add: boot_image_bytes)

text \<open>A program that fits above the devices with its stack behind it.\<close>

definition xv6_fits :: "u8 list \<Rightarrow> u64 \<Rightarrow> bool" where
  "xv6_fits program address \<longleftrightarrow> 0 < length program \<and> 0x10002000 \<le> unat address
     \<and> unat address + length program + 0xfff + unat STACK_SIZE < 2 ^ 64"

definition xv6_built :: "heap \<Rightarrow> u8 list \<Rightarrow> u64 \<Rightarrow> bus" where
  "xv6_built h program address =
     (let sz = page_align (of_nat (length program)); rg = \<lambda>s n. \<lparr>range_start = s, range_size = n\<rparr> in
      \<lparr>ranges = \<lparr>starts = map fst (xv6_map address sz), sizes = map snd (xv6_map address sz)\<rparr>,
       bus_ram = ram_with_content sz program, ram_range = rg address sz,
       bus_stack = ram_new STACK_SIZE, stack_range = rg (address + sz) STACK_SIZE,
       bus_bootloader = ram_with_content 40 boot_image, bootloader_range = rg BOOTLOADER_ADDR 40,
       bus_clint = Some 0, clint_range = rg CLINT_BASE CLINT_SIZE,
       bus_uart = Some 0, uart_range = rg UART_BASE UART_SIZE,
       bus_plic = Some 0, plic_range = rg PLIC_BASE PLIC_SIZE,
       bus_virtio = Some 0, virtio_range = rg VIRTIO_DISK_BASE 0x1000,
       heap = h\<rparr>)"

lemma ram_len_with_content: "length d \<le> unat n \<Longrightarrow> ram_len (ram_with_content n d) = n"
  by (simp add: ram_len_def ram_with_content_def Let_def max_def)

lemma ram_len_new: "ram_len (ram_new n) = n"
  by (simp add: ram_len_def ram_new_def)

lemma xv6_reserves:
  fixes sz :: u64
  assumes "sz \<noteq> 0" "unat address + unat sz + unat STACK_SIZE < 2 ^ 64"
    and "unat (address + sz) = unat address + unat sz" "address < address + sz"
    and upto: "\<And>x :: u64. unat x \<le> 0x10002000 \<Longrightarrow> x \<le> address"
  shows "ranges b = \<lparr>starts = [], sizes = []\<rparr>
      \<Longrightarrow> reserve address sz b = (Inr \<lparr>range_start = address, range_size = sz\<rparr>,
        b\<lparr>ranges := \<lparr>starts = [address], sizes = [sz]\<rparr>\<rparr>)"
    and "ranges b = \<lparr>starts = [address], sizes = [sz]\<rparr>
      \<Longrightarrow> reserve (address + sz) STACK_SIZE b = (Inr \<lparr>range_start = address + sz, range_size = STACK_SIZE\<rparr>,
        b\<lparr>ranges := \<lparr>starts = [address, address + sz], sizes = [sz, STACK_SIZE]\<rparr>\<rparr>)"
    and "ranges b = \<lparr>starts = [address, address + sz], sizes = [sz, STACK_SIZE]\<rparr>
      \<Longrightarrow> reserve CLINT_BASE CLINT_SIZE b = (Inr \<lparr>range_start = CLINT_BASE, range_size = CLINT_SIZE\<rparr>,
        b\<lparr>ranges := \<lparr>starts = [CLINT_BASE, address, address + sz], sizes = [CLINT_SIZE, sz, STACK_SIZE]\<rparr>\<rparr>)"
    and "ranges b = \<lparr>starts = [CLINT_BASE, address, address + sz], sizes = [CLINT_SIZE, sz, STACK_SIZE]\<rparr>
      \<Longrightarrow> reserve UART_BASE UART_SIZE b = (Inr \<lparr>range_start = UART_BASE, range_size = UART_SIZE\<rparr>,
        b\<lparr>ranges := \<lparr>starts = [CLINT_BASE, UART_BASE, address, address + sz], sizes = [CLINT_SIZE, UART_SIZE, sz, STACK_SIZE]\<rparr>\<rparr>)"
    and "ranges b = \<lparr>starts = [CLINT_BASE, UART_BASE, address, address + sz], sizes = [CLINT_SIZE, UART_SIZE, sz, STACK_SIZE]\<rparr>
      \<Longrightarrow> reserve VIRTIO_DISK_BASE 0x1000 b = (Inr \<lparr>range_start = VIRTIO_DISK_BASE, range_size = 0x1000\<rparr>,
        b\<lparr>ranges := \<lparr>starts = [CLINT_BASE, UART_BASE, VIRTIO_DISK_BASE, address, address + sz],
           sizes = [CLINT_SIZE, UART_SIZE, 0x1000, sz, STACK_SIZE]\<rparr>\<rparr>)"
    and "ranges b = \<lparr>starts = [CLINT_BASE, UART_BASE, VIRTIO_DISK_BASE, address, address + sz],
         sizes = [CLINT_SIZE, UART_SIZE, 0x1000, sz, STACK_SIZE]\<rparr>
      \<Longrightarrow> reserve PLIC_BASE PLIC_SIZE b = (Inr \<lparr>range_start = PLIC_BASE, range_size = PLIC_SIZE\<rparr>,
        b\<lparr>ranges := \<lparr>starts = [CLINT_BASE, PLIC_BASE, UART_BASE, VIRTIO_DISK_BASE, address, address + sz],
           sizes = [CLINT_SIZE, PLIC_SIZE, UART_SIZE, 0x1000, sz, STACK_SIZE]\<rparr>\<rparr>)"
    and "ranges b = \<lparr>starts = [CLINT_BASE, PLIC_BASE, UART_BASE, VIRTIO_DISK_BASE, address, address + sz],
         sizes = [CLINT_SIZE, PLIC_SIZE, UART_SIZE, 0x1000, sz, STACK_SIZE]\<rparr>
      \<Longrightarrow> reserve BOOTLOADER_ADDR 40 b = (Inr \<lparr>range_start = BOOTLOADER_ADDR, range_size = 40\<rparr>,
        b\<lparr>ranges := \<lparr>starts = [BOOTLOADER_ADDR, CLINT_BASE, PLIC_BASE, UART_BASE, VIRTIO_DISK_BASE, address, address + sz],
           sizes = [40, CLINT_SIZE, PLIC_SIZE, UART_SIZE, 0x1000, sz, STACK_SIZE]\<rparr>\<rparr>)"
  subgoal using reserve_end [of sz address "[]" "[]" b] assms(1-4) by simp
  subgoal using reserve_end [of STACK_SIZE "address + sz" "[address]" "[sz]" b] assms(1-4) by simp
  subgoal using reserve_at [of CLINT_SIZE CLINT_BASE "[]" "[]" "[STACK_SIZE]" "[address + sz]" address b sz]
    by (simp add: upto)
  subgoal using reserve_at [of UART_SIZE UART_BASE "[CLINT_BASE]" "[CLINT_SIZE]" "[STACK_SIZE]" "[address + sz]" address b sz]
    by (simp add: upto)
  subgoal using reserve_at [of "0x1000" VIRTIO_DISK_BASE "[CLINT_BASE, UART_BASE]" "[CLINT_SIZE, UART_SIZE]" "[STACK_SIZE]"
        "[address + sz]" address b sz] by (simp add: upto)
  subgoal using reserve_at [of PLIC_SIZE PLIC_BASE "[CLINT_BASE]" "[CLINT_SIZE]" "[0x1000, sz, STACK_SIZE]"
        "[VIRTIO_DISK_BASE, address, address + sz]" UART_BASE b UART_SIZE] by simp
  subgoal using reserve_at [of 40 BOOTLOADER_ADDR "[]" "[]" "[PLIC_SIZE, UART_SIZE, 0x1000, sz, STACK_SIZE]"
        "[PLIC_BASE, UART_BASE, VIRTIO_DISK_BASE, address, address + sz]" CLINT_BASE b CLINT_SIZE] by simp
  done

lemma xv6_bus_builds:
  assumes "xv6_fits program address"
    and "clint_len (clints h 0) = CLINT_SIZE" "uart_len (uarts h 0) = UART_SIZE" "plic_len (plics h 0) = PLIC_SIZE"
    and "virtios h 0 = Available blk"
  shows "xv6_bus program address (bus_new h) = (Inr (), xv6_built h program address)"
proof -
  define sz where "sz = page_align (of_nat (length program))"
  note fits = assms(1) [unfolded xv6_fits_def]
  have sz: "length program \<le> unat sz" "unat sz \<le> length program + 0xfff" "sz \<noteq> 0"
    unfolding sz_def using fits by (intro page_align_bounds; simp)+
  have room: "unat address + unat sz + unat STACK_SIZE < 2 ^ 64" "0x10002000 \<le> unat address" using fits sz(2) by simp_all
  have end_: "unat (address + sz) = unat address + unat sz" using room by (intro unat_add_no_wrap) simp
  then have lt: "address < address + sz" using sz(3) by (simp add: word_less_nat_alt unat_gt_0)
  have upto: "x \<le> address" if "unat x \<le> 0x10002000" for x :: u64
    using that room(2) by (simp add: word_le_nat_alt)
  note R = xv6_reserves [OF sz(3) room(1) end_ lt upto]
  note boot = length_boot_image
  have lens: "ram_len (ram_with_content sz program) = sz" "ram_len (ram_new STACK_SIZE) = STACK_SIZE"
    "ram_len (ram_with_content 40 boot_image) = 40"
    using sz boot by (simp_all add: ram_len_with_content ram_len_new)
  have sub: "page_align (of_nat (length program)) + address = address + sz" "address + sz - address = sz"
    by (simp_all add: sz_def)
  show ?thesis
    unfolding xv6_bus_def Let_def sub set_ram_def set_stack_def set_clint_def set_uart_def set_virtio_def set_plic_def
      set_bootloader_def boot_image_def [symmetric]
    using assms(2-5)
    by (simp add: and_then_def modify_def gets_def boot lens virtio_len_def R(1-5) R(6,7) [simplified] xv6_built_def xv6_map_def Let_def
        sz_def [symmetric] bus_new_def range_manager_new_def)
qed


lemma xv6_new_smp_builds:
  assumes "xv6_fits program address" "0 < ncpu" "ncpu \<le> 32"
  shows "xv6_new_smp h program address out inp img ncpu =
    Inr \<lparr>emu_bus = xv6_built (xv6_heap h out inp img (unat ncpu)) program address,
         emu_cpus = map (\<lambda>i. xv6_cpu (of_nat i)) [0..<unat ncpu]\<rparr>"
proof -
  have "xv6_bus program address (bus_new (xv6_heap h out inp img (unat ncpu)))
      = (Inr (), xv6_built (xv6_heap h out inp img (unat ncpu)) program address)"
    by (rule xv6_bus_builds [OF assms(1)])
      (simp_all add: xv6_heap_def clint_len_def clint_new_def uart_len_def uart_new_def plic_len_def plic_new_def register_irq_def)
  moreover have "\<not> 32 < ncpu" "ncpu \<noteq> 0" using assms(2,3) by auto
  ultimately show ?thesis by (simp add: xv6_new_smp_def)
qed

text \<open>
  C11: building the machine. For a non-empty program that fits above the devices and 1 to 32 harts,
  construction succeeds: the seven address ranges are reserved, sorted and disjoint, main memory
  holds the program padded with zeros to a page and the stack follows it; hart \<open>i\<close> starts at the
  boot ROM with hart id \<open>i\<close>. No hart, or more than 32, is refused.
\<close>

theorem xv6_construction:
  assumes "xv6_fits program address"
  shows "(\<forall>ncpu. 0 < ncpu \<and> ncpu \<le> 32 \<longrightarrow> (\<exists>e. xv6_new_smp h program address out inp img ncpu = Inr e
      \<and> entries (ranges (emu_bus e)) = xv6_map address (page_align (of_nat (length program)))
      \<and> rm_wf (ranges (emu_bus e)) \<and> rm_disjoint (ranges (emu_bus e))
      \<and> ram_data (bus_ram (emu_bus e)) = program @ replicate (unat (page_align (of_nat (length program))) - length program) 0
      \<and> ram_data (bus_bootloader (emu_bus e)) = hex_decode BOOTLOADER_HEX
      \<and> length (emu_cpus e) = unat ncpu
      \<and> (\<forall>i < unat ncpu. hartid (emu_cpus e ! i) = of_nat i \<and> pc (emu_cpus e ! i) = BOOTLOADER_ADDR)))
    \<and> xv6_new_smp h program address out inp img 0 = error Ncpu_zero
    \<and> (\<forall>ncpu. 32 < ncpu \<longrightarrow> xv6_new_smp h program address out inp img ncpu = error (Ncpu_exceeds ncpu 32))"
proof (intro conjI allI impI)
  fix ncpu :: u64 assume "0 < ncpu \<and> ncpu \<le> 32"
  then have b: "xv6_new_smp h program address out inp img ncpu =
    Inr \<lparr>emu_bus = xv6_built (xv6_heap h out inp img (unat ncpu)) program address,
         emu_cpus = map (\<lambda>i. xv6_cpu (of_nat i)) [0..<unat ncpu]\<rparr>"
    using xv6_new_smp_builds [OF assms] by blast
  define sz where "sz = page_align (of_nat (length program))"
  note fits = assms [unfolded xv6_fits_def]
  have sz: "length program \<le> unat sz" "unat sz \<le> length program + 0xfff" "sz \<noteq> 0"
    unfolding sz_def using fits by (intro page_align_bounds; simp)+
  have e: "unat (address + sz) = unat address + unat sz" using fits sz(2) by (intro unat_add_no_wrap) simp
  let ?m = "\<lparr>starts = map fst (xv6_map address sz), sizes = map snd (xv6_map address sz)\<rparr>"
  have en: "entries ?m = xv6_map address sz" by (simp add: entries_def zip_map_fst_snd)
  have "rm_wf ?m" "rm_disjoint ?m"
    unfolding rm_wf_def rm_disjoint_def en
    using fits sz e by (simp_all add: xv6_map_def entry_end_def word_less_nat_alt unat_gt_0)
  then show "\<exists>e. xv6_new_smp h program address out inp img ncpu = Inr e
      \<and> entries (ranges (emu_bus e)) = xv6_map address (page_align (of_nat (length program)))
      \<and> rm_wf (ranges (emu_bus e)) \<and> rm_disjoint (ranges (emu_bus e))
      \<and> ram_data (bus_ram (emu_bus e)) = program @ replicate (unat (page_align (of_nat (length program))) - length program) 0
      \<and> ram_data (bus_bootloader (emu_bus e)) = hex_decode BOOTLOADER_HEX
      \<and> length (emu_cpus e) = unat ncpu
      \<and> (\<forall>i < unat ncpu. hartid (emu_cpus e ! i) = of_nat i \<and> pc (emu_cpus e ! i) = BOOTLOADER_ADDR)"
    using b en sz(1) length_boot_image
    by (intro exI conjI) (auto simp: xv6_built_def sz_def Let_def ram_with_content_def max_def xv6_cpu_def cpu_new_def simp flip: boot_image_def)
qed (auto simp: xv6_new_smp_def)

theorem xv6_construction_witness:
  "\<exists>e. xv6_new_smp empty_heap [0x13, 0, 0, 0] 0x80000000 None None None 3 = Inr e \<and> length (emu_cpus e) = 3
     \<and> rm_disjoint (ranges (emu_bus e))"
  using xv6_construction [of "[0x13, 0, 0, 0]" "0x80000000" empty_heap None None None]
  by (auto simp: xv6_fits_def dest: spec [of _ 3])

section \<open>A program loaded below the devices\<close>

text \<open>A program that starts below the boot ROM and reaches over all the devices, and the address map the
  machine is then built with: the devices stand between the start of main memory and the stack.\<close>

definition xv6_spans :: "u8 list \<Rightarrow> u64 \<Rightarrow> bool" where
  "xv6_spans program address \<longleftrightarrow> unat address < 0x1000 \<and> 0x10002000 \<le> unat address + length program
     \<and> unat address + length program + 0xfff + unat STACK_SIZE < 2 ^ 64"

definition spanned_map :: "u64 \<Rightarrow> u64 \<Rightarrow> (u64 \<times> u64) list" where
  "spanned_map address sz =
     [(address, sz), (BOOTLOADER_ADDR, 40), (CLINT_BASE, CLINT_SIZE), (PLIC_BASE, PLIC_SIZE), (UART_BASE, UART_SIZE),
      (VIRTIO_DISK_BASE, 0x1000), (address + sz, STACK_SIZE)]"

lemma spanned_reserves:
  fixes sz :: u64
  assumes "sz \<noteq> 0" "unat address + unat sz + unat STACK_SIZE < 2 ^ 64"
    and "unat (address + sz) = unat address + unat sz" "address < address + sz"
    and below: "\<And>x :: u64. 0x1000 \<le> unat x \<Longrightarrow> address < x"
    and upto: "\<And>x :: u64. unat x \<le> 0x10002000 \<Longrightarrow> x \<le> address + sz"
  shows "ranges b = \<lparr>starts = [], sizes = []\<rparr>
      \<Longrightarrow> reserve address sz b = (Inr \<lparr>range_start = address, range_size = sz\<rparr>,
        b\<lparr>ranges := \<lparr>starts = [address], sizes = [sz]\<rparr>\<rparr>)"
    and "ranges b = \<lparr>starts = [address], sizes = [sz]\<rparr>
      \<Longrightarrow> reserve (address + sz) STACK_SIZE b = (Inr \<lparr>range_start = address + sz, range_size = STACK_SIZE\<rparr>,
        b\<lparr>ranges := \<lparr>starts = [address, address + sz], sizes = [sz, STACK_SIZE]\<rparr>\<rparr>)"
    and "ranges b = \<lparr>starts = [address, address + sz], sizes = [sz, STACK_SIZE]\<rparr>
      \<Longrightarrow> reserve CLINT_BASE CLINT_SIZE b = (Inr \<lparr>range_start = CLINT_BASE, range_size = CLINT_SIZE\<rparr>,
        b\<lparr>ranges := \<lparr>starts = [address, CLINT_BASE, address + sz], sizes = [sz, CLINT_SIZE, STACK_SIZE]\<rparr>\<rparr>)"
    and "ranges b = \<lparr>starts = [address, CLINT_BASE, address + sz], sizes = [sz, CLINT_SIZE, STACK_SIZE]\<rparr>
      \<Longrightarrow> reserve UART_BASE UART_SIZE b = (Inr \<lparr>range_start = UART_BASE, range_size = UART_SIZE\<rparr>,
        b\<lparr>ranges := \<lparr>starts = [address, CLINT_BASE, UART_BASE, address + sz], sizes = [sz, CLINT_SIZE, UART_SIZE, STACK_SIZE]\<rparr>\<rparr>)"
    and "ranges b = \<lparr>starts = [address, CLINT_BASE, UART_BASE, address + sz], sizes = [sz, CLINT_SIZE, UART_SIZE, STACK_SIZE]\<rparr>
      \<Longrightarrow> reserve VIRTIO_DISK_BASE 0x1000 b = (Inr \<lparr>range_start = VIRTIO_DISK_BASE, range_size = 0x1000\<rparr>,
        b\<lparr>ranges := \<lparr>starts = [address, CLINT_BASE, UART_BASE, VIRTIO_DISK_BASE, address + sz],
           sizes = [sz, CLINT_SIZE, UART_SIZE, 0x1000, STACK_SIZE]\<rparr>\<rparr>)"
    and "ranges b = \<lparr>starts = [address, CLINT_BASE, UART_BASE, VIRTIO_DISK_BASE, address + sz],
         sizes = [sz, CLINT_SIZE, UART_SIZE, 0x1000, STACK_SIZE]\<rparr>
      \<Longrightarrow> reserve PLIC_BASE PLIC_SIZE b = (Inr \<lparr>range_start = PLIC_BASE, range_size = PLIC_SIZE\<rparr>,
        b\<lparr>ranges := \<lparr>starts = [address, CLINT_BASE, PLIC_BASE, UART_BASE, VIRTIO_DISK_BASE, address + sz],
           sizes = [sz, CLINT_SIZE, PLIC_SIZE, UART_SIZE, 0x1000, STACK_SIZE]\<rparr>\<rparr>)"
    and "ranges b = \<lparr>starts = [address, CLINT_BASE, PLIC_BASE, UART_BASE, VIRTIO_DISK_BASE, address + sz],
         sizes = [sz, CLINT_SIZE, PLIC_SIZE, UART_SIZE, 0x1000, STACK_SIZE]\<rparr>
      \<Longrightarrow> reserve BOOTLOADER_ADDR 40 b = (Inr \<lparr>range_start = BOOTLOADER_ADDR, range_size = 40\<rparr>,
        b\<lparr>ranges := \<lparr>starts = [address, BOOTLOADER_ADDR, CLINT_BASE, PLIC_BASE, UART_BASE, VIRTIO_DISK_BASE, address + sz],
           sizes = [sz, 40, CLINT_SIZE, PLIC_SIZE, UART_SIZE, 0x1000, STACK_SIZE]\<rparr>\<rparr>)"
  subgoal using reserve_end [of sz address "[]" "[]" b] assms(1-4) by simp
  subgoal using reserve_end [of STACK_SIZE "address + sz" "[address]" "[sz]" b] assms(1-4) by simp
  subgoal using reserve_at [of CLINT_SIZE CLINT_BASE "[address]" "[sz]" "[]" "[]" "address + sz" b STACK_SIZE]
    by (simp add: upto below)
  subgoal using reserve_at [of UART_SIZE UART_BASE "[address, CLINT_BASE]" "[sz, CLINT_SIZE]" "[]" "[]" "address + sz" b STACK_SIZE]
    by (simp add: upto below)
  subgoal using reserve_at [of "0x1000" VIRTIO_DISK_BASE "[address, CLINT_BASE, UART_BASE]" "[sz, CLINT_SIZE, UART_SIZE]" "[]" "[]"
        "address + sz" b STACK_SIZE] by (simp add: upto below)
  subgoal using reserve_at [of PLIC_SIZE PLIC_BASE "[address, CLINT_BASE]" "[sz, CLINT_SIZE]" "[0x1000, STACK_SIZE]"
        "[VIRTIO_DISK_BASE, address + sz]" UART_BASE b UART_SIZE] by (simp add: below)
  subgoal using reserve_at [of 40 BOOTLOADER_ADDR "[address]" "[sz]" "[PLIC_SIZE, UART_SIZE, 0x1000, STACK_SIZE]"
        "[PLIC_BASE, UART_BASE, VIRTIO_DISK_BASE, address + sz]" CLINT_BASE b CLINT_SIZE] by (simp add: below)
  done

definition xv6_spanned :: "heap \<Rightarrow> u8 list \<Rightarrow> u64 \<Rightarrow> bus" where
  "xv6_spanned h program address =
     (let sz = page_align (of_nat (length program)) in
      (xv6_built h program address)\<lparr>ranges :=
        \<lparr>starts = map fst (spanned_map address sz), sizes = map snd (spanned_map address sz)\<rparr>\<rparr>)"

lemma spans_bounds:
  assumes "xv6_spans program address"
  defines "sz \<equiv> page_align (of_nat (length program))"
  shows "length program \<le> unat sz" "sz \<noteq> 0" "unat address + unat sz + unat STACK_SIZE < 2 ^ 64"
    "unat (address + sz) = unat address + unat sz" "0x10002000 \<le> unat address + unat sz"
proof -
  note spans = assms(1) [unfolded xv6_spans_def]
  have pos: "0 < length program" using spans by linarith
  have "length program + 0xfff < 2 ^ 64" using spans by simp
  note B = page_align_bounds [OF pos this]
  show sz: "length program \<le> unat sz" "sz \<noteq> 0" unfolding sz_def by (rule B)+
  have "unat sz \<le> length program + 0xfff" unfolding sz_def by (rule B)
  then show room: "unat address + unat sz + unat STACK_SIZE < 2 ^ 64" using spans by simp
  then show "unat (address + sz) = unat address + unat sz" by (intro unat_add_no_wrap) simp
  show "0x10002000 \<le> unat address + unat sz" using spans sz by simp
qed

lemma xv6_bus_spans:
  assumes "xv6_spans program address"
    and "clint_len (clints h 0) = CLINT_SIZE" "uart_len (uarts h 0) = UART_SIZE" "plic_len (plics h 0) = PLIC_SIZE"
    and "virtios h 0 = Available blk"
  shows "xv6_bus program address (bus_new h) = (Inr (), xv6_spanned h program address)"
proof -
  define sz where "sz = page_align (of_nat (length program))"
  note S = spans_bounds [OF assms(1), folded sz_def]
  have lt: "address < address + sz" using S(2,4) by (simp add: word_less_nat_alt unat_gt_0)
  have below: "address < x" if "0x1000 \<le> unat x" for x :: u64
    using that assms(1) by (simp add: word_less_nat_alt xv6_spans_def)
  have upto: "x \<le> address + sz" if "unat x \<le> 0x10002000" for x :: u64
    using that S(4,5) by (simp add: word_le_nat_alt)
  note R = spanned_reserves [OF S(2,3,4) lt below upto]
  note boot = length_boot_image
  have lens: "ram_len (ram_with_content sz program) = sz" "ram_len (ram_new STACK_SIZE) = STACK_SIZE"
    "ram_len (ram_with_content 40 boot_image) = 40"
    using S(1) boot by (simp_all add: ram_len_with_content ram_len_new)
  have sub: "page_align (of_nat (length program)) + address = address + sz" "address + sz - address = sz"
    by (simp_all add: sz_def)
  show ?thesis
    unfolding xv6_bus_def Let_def sub set_ram_def set_stack_def set_clint_def set_uart_def set_virtio_def set_plic_def
      set_bootloader_def boot_image_def [symmetric]
    using assms(2-5)
    by (simp add: and_then_def modify_def gets_def boot lens virtio_len_def R(1-5) R(6,7) [simplified] xv6_spanned_def xv6_built_def
        spanned_map_def Let_def sz_def [symmetric] bus_new_def range_manager_new_def)
qed

lemma xv6_new_smp_spans:
  assumes "xv6_spans program address" "0 < ncpu" "ncpu \<le> 32"
  shows "xv6_new_smp h program address out inp img ncpu =
    Inr \<lparr>emu_bus = xv6_spanned (xv6_heap h out inp img (unat ncpu)) program address,
         emu_cpus = map (\<lambda>i. xv6_cpu (of_nat i)) [0..<unat ncpu]\<rparr>"
proof -
  have "xv6_bus program address (bus_new (xv6_heap h out inp img (unat ncpu)))
      = (Inr (), xv6_spanned (xv6_heap h out inp img (unat ncpu)) program address)"
    by (rule xv6_bus_spans [OF assms(1)])
      (simp_all add: xv6_heap_def clint_len_def clint_new_def uart_len_def uart_new_def plic_len_def plic_new_def register_irq_def)
  moreover have "\<not> 32 < ncpu" "ncpu \<noteq> 0" using assms(2,3) by auto
  ultimately show ?thesis by (simp add: xv6_new_smp_def)
qed

lemma spanned_access:
  fixes h :: heap
  assumes "xv6_spans program address" "n \<in> {1, 2, 4, 8}" "unat address \<le> unat a" "unat a + unat n \<le> 0x10002000"
  defines "b \<equiv> xv6_spanned h program address"
  shows "bus_read a n b = (Inr (from_le_bytes (take (unat n) (drop (unat a - unat address) program))), b)"
    "\<exists>r. bus_write a n v b = (Inr (), b\<lparr>bus_ram := r\<rparr>)"
proof -
  define sz where "sz = page_align (of_nat (length program))"
  note S = spans_bounds [OF assms(1), folded sz_def]
  have r: "ram_range b = \<lparr>range_start = address, range_size = sz\<rparr>"
    "ram_data (bus_ram b) = program @ replicate (unat sz - length program) 0"
    using S(1) by (simp_all add: b_def xv6_spanned_def xv6_built_def Let_def ram_with_content_def max_def flip: sz_def)
  have "contains (ram_range b) a (ucast n)"
    using contains_covers [of "ram_range b" a "ucast n"] assms(3,4) S(3,5)
    by (simp add: r covers_def entry_end_def unat_ucast_size)
  moreover have "length (ram_data (bus_ram b)) = unat sz" using S(1) r(2) by simp
  ultimately have valid: "bus_ram_valid b a n"
    using assms(2) S(3) by (simp add: bus_ram_valid_def r)
  have off: "unat (a - address) = unat a - unat address"
    using assms(3) by (simp add: unat_sub_if_size word_le_nat_alt)
  have prog: "unat a - unat address + unat n \<le> length program"
    using assms(1,3,4) unfolding xv6_spans_def by linarith
  then have "ram_valid (bus_ram b) (a - address) n"
    using assms(2) off r(2) by (simp add: ram_valid_def)
  from ram_read_valid [OF this] show "bus_read a n b = (Inr (from_le_bytes (take (unat n) (drop (unat a - unat address) program))), b)"
    using prog by (simp add: bus_read_ram [OF valid] on_field_eqs r off)
  have "fst (bus_write a n v b) = Inr ()" by (rule bus_mem.write_returns [OF valid])
  moreover have "bus_write a n v b = on_ram (ram_write (a - address) n v) b"
    unfolding bus_write_def bus_write_ram [OF valid] by (simp add: r)
  ultimately show "\<exists>r. bus_write a n v b = (Inr (), b\<lparr>bus_ram := r\<rparr>)"
    by (auto simp: on_field_eqs)
qed

text \<open>
  C40: what the unchecked left neighbour leads to. A program loaded below the boot ROM at 0x1000 that
  reaches up to the end of the devices (with room for its stack), and 1 to 32 harts: construction
  succeeds, although all five device ranges lie inside main memory and the address map is not
  disjoint. Every access of 1, 2, 4 or 8 bytes from the program's start to the end of the devices
  then reads the program's bytes and writes main memory only. So the harts, which start at
  0x1000, run the program's bytes instead of the boot ROM's, and no such access reaches a device.
\<close>

theorem low_program_shadows_devices:
  assumes "xv6_spans program address" "0 < ncpu" "ncpu \<le> 32"
  shows "\<exists>e. xv6_new_smp h program address out inp img ncpu = Inr e
    \<and> \<not> rm_disjoint (ranges (emu_bus e))
    \<and> {(0x1000, 40), (0x02000000, 0x10000), (0x0c000000, 0x04000000), (0x10000000, 0x100), (0x10001000, 0x1000)}
        \<subseteq> set (entries (ranges (emu_bus e)))
    \<and> (\<forall>c \<in> set (emu_cpus e). pc c = 0x1000)
    \<and> (\<forall>a n v. n \<in> {1, 2, 4, 8} \<and> unat address \<le> unat a \<and> unat a + unat n \<le> 0x10002000 \<longrightarrow>
         bus_read a n (emu_bus e)
           = (Inr (from_le_bytes (take (unat n) (drop (unat a - unat address) program))), emu_bus e)
         \<and> (\<exists>r. bus_write a n v (emu_bus e) = (Inr (), (emu_bus e)\<lparr>bus_ram := r\<rparr>)))"
proof -
  define sz where "sz = page_align (of_nat (length program))"
  note S = spans_bounds [OF assms(1), folded sz_def]
  let ?b = "xv6_spanned (xv6_heap h out inp img (unat ncpu)) program address"
  have en: "entries (ranges ?b) = spanned_map address sz"
    by (simp add: xv6_spanned_def entries_def zip_map_fst_snd Let_def sz_def)
  have "\<not> rm_disjoint (ranges ?b)"
    using assms(1) S(5) by (simp add: rm_disjoint_def en spanned_map_def entry_end_def xv6_spans_def)
  moreover have "{(0x1000, 40), (0x02000000, 0x10000), (0x0c000000, 0x04000000), (0x10000000, 0x100), (0x10001000, 0x1000)}
      \<subseteq> set (entries (ranges ?b))" by (simp add: en spanned_map_def)
  moreover note xv6_new_smp_spans [OF assms, of h out inp img] spanned_access [OF assms(1)]
  ultimately show ?thesis by (auto simp: xv6_cpu_def)
qed

theorem low_program_shadows_devices_witness:
  "\<exists>program e. xv6_new_smp empty_heap program 0x800 None None None 1 = Inr e
     \<and> fst (bus_read 0x1000 4 (emu_bus e)) = Inr 0 \<and> \<not> rm_disjoint (ranges (emu_bus e))"
proof -
  obtain program :: "u8 list" where p: "program = replicate 0x10002000 0" by blast
  have "length program = 0x10002000" unfolding p by (rule length_replicate)
  then have "xv6_spans program 0x800" by (simp add: xv6_spans_def)
  moreover have "take 4 (drop 0x800 program) = replicate 4 0" unfolding p by simp
  ultimately have t: "xv6_spans program 0x800" "take 4 (drop 0x800 program) = replicate 4 0" by blast+
  then obtain e where e: "xv6_new_smp empty_heap program 0x800 None None None 1 = Inr e"
    "\<not> rm_disjoint (ranges (emu_bus e))"
    "\<forall>a n v. n \<in> {1, 2, 4, 8} \<and> unat (0x800 :: u64) \<le> unat a \<and> unat a + unat n \<le> 0x10002000 \<longrightarrow>
       bus_read a n (emu_bus e)
         = (Inr (from_le_bytes (take (unat n) (drop (unat a - unat (0x800 :: u64)) program))), emu_bus e)
       \<and> (\<exists>r. bus_write a n v (emu_bus e) = (Inr (), (emu_bus e)\<lparr>bus_ram := r\<rparr>))"
    using low_program_shadows_devices [of program "0x800" 1 empty_heap None None None] by auto
  have "from_le_bytes (replicate 4 0) = 0" by code_simp
  with e(3) [rule_format, of 4 "0x1000" 0] t(2) have "fst (bus_read 0x1000 4 (emu_bus e)) = Inr 0" by simp
  with e show ?thesis by blast
qed

end
