(* ===== verification/Rvc_Expansion.thy ===== *)
theory Rvc_Expansion
  imports Rvc
begin

text \<open>
  The compressed instructions against the 32-bit ones: an expansion of halfwords to words, written
  with the field accessors of \<^verbatim>\<open>rvc.rs\<close>, and the proof that its interpreter and the one of
  \<^verbatim>\<open>execute.rs\<close> agree along it, quadrant by quadrant.
\<close>

section \<open>The fields of compressed instructions\<close>

lemma bits_at_eq: "bits_at x pos n = take_bit n (drop_bit pos (ucast x))"
  by (simp add: bits_at_def take_bit_eq_mask mask_eq_exp_minus_1)

lemma bits_at_less [simp]:
  "bits_at x pos 1 < 2" "bits_at x pos 2 < 4" "bits_at x pos 3 < 8" "bits_at x pos 4 < 0x10" "bits_at x pos 5 < 0x20"
  using take_bit_less [of 1 "drop_bit pos (ucast x :: u32)"] take_bit_less [of 2 "drop_bit pos (ucast x :: u32)"] 
   take_bit_less [of 3 "drop_bit pos (ucast x :: u32)"] take_bit_less [of 4 "drop_bit pos (ucast x :: u32)"] take_bit_less [of 5 "drop_bit pos (ucast x :: u32)"]
  by (simp_all add: bits_at_eq)

lemma c_sext_eq: "c_sext v n = sext v n"
  by (simp add: c_sext_def sext_def)

lemma sext64_eq: "sext64 v 32 = c_sext (ucast v) 32"
  by (rule bit_word_eqI) (auto simp: sext64_def c_sext_def bit_simps)

section \<open>Expansion\<close>

text \<open>
  The 32-bit instruction a compressed one stands for, with the immediates as \<^verbatim>\<open>rvc.rs\<close> extracts
  them, for the encodings it accepts; \<open>None\<close> for the others. \<open>encode_r\<close> is the register format, the
  I format with the function field and the second register in its immediate.
\<close>

definition encode_r :: "u32 \<Rightarrow> u32 \<Rightarrow> u32 \<Rightarrow> u32 \<Rightarrow> u32 \<Rightarrow> u32 \<Rightarrow> u32" where
  "encode_r f7 r2 r1 f3 d opc = encode_i (push_bit 5 f7 OR r2) r1 f3 d opc"

definition c_reg :: "cinstruction \<Rightarrow> nat \<Rightarrow> u32" where
  "c_reg i pos = bits_at (c_value i) pos 3 + 8"

definition code_expand0 :: "cinstruction \<Rightarrow> u32 option" where
  "code_expand0 i =
     (let f3 = c_funct3 i in
      if f3 = 0 then (case nzuimm_9_2 i of Inl _ \<Rightarrow> None | Inr imm \<Rightarrow> Some (encode_i imm SP 0 (c_reg i 2) OPCODE_OP_IMM))
      else if f3 = 2 then Some (encode_i (offset_6_2 i) (c_reg i 7) 2 (c_reg i 2) OPCODE_LOAD)
      else if f3 = 3 then Some (encode_i (offset_7_3 i) (c_reg i 7) 3 (c_reg i 2) OPCODE_LOAD)
      else if f3 = 6 then Some (encode_s (offset_6_2 i) (c_reg i 7) (c_reg i 2) 2 OPCODE_STORE)
      else if f3 = 7 then Some (encode_s (offset_7_3 i) (c_reg i 7) (c_reg i 2) 3 OPCODE_STORE)
      else None)"

definition code_expand_alu :: "cinstruction \<Rightarrow> u32 option" where
  "code_expand_alu i =
     (let sel = bits_at (c_value i) 10 2; r = c_reg i 7; f2 = c_funct2 i in
      if sel = 0 then (if uimm_5_0 i = 0 then None else Some (encode_i (uimm_5_0 i) r 5 r OPCODE_OP_IMM))
      else if sel = 1 then (if uimm_5_0 i = 0 then None else Some (encode_i (0x400 OR uimm_5_0 i) r 5 r OPCODE_OP_IMM))
      else if sel = 2 then Some (encode_i (ucast (imm_5_0 i)) r 7 r OPCODE_OP_IMM)
      else if c_bit12 i = 0 then
        Some (if f2 = 0 then encode_r 0x20 (c_reg i 2) r 0 r OPCODE_OP
              else encode_r 0 (c_reg i 2) r (if f2 = 1 then 4 else if f2 = 2 then 6 else 7) r OPCODE_OP)
      else if f2 = 0 then Some (encode_r 0x20 (c_reg i 2) r 0 r OPCODE_OP_32)
      else if f2 = 1 then Some (encode_r 0 (c_reg i 2) r 0 r OPCODE_OP_32)
      else None)"

definition code_expand1 :: "cinstruction \<Rightarrow> u32 option" where
  "code_expand1 i =
     (let f3 = c_funct3 i; d = bits_at (c_value i) 7 5; imm = ucast (imm_5_0 i) :: u32 in
      if f3 = 0 then Some (encode_i imm d 0 d OPCODE_OP_IMM)
      else if f3 = 1 then (if d = 0 then None else Some (encode_i imm d 0 d OPCODE_OP_IMM_32))
      else if f3 = 2 then (if d = 0 then None else Some (encode_i imm ZERO 0 d OPCODE_OP_IMM))
      else if f3 = 3 then
        (if d = 2 then (case nzimm_9_4 i of Inl _ \<Rightarrow> None | Inr v \<Rightarrow> Some (encode_i (ucast v) SP 0 SP OPCODE_OP_IMM))
         else if d = 0 \<or> imm_5_0 i = 0 then None else Some (encode_u (push_bit 12 imm) d OPCODE_LUI))
      else if f3 = 4 then code_expand_alu i
      else if f3 = 5 then Some (encode_j (ucast (offset_11_1 i)) ZERO OPCODE_JAL)
      else if f3 = 6 then Some (encode_b (ucast (offset_8_1 i)) (c_reg i 7) ZERO 0 OPCODE_BRANCH)
      else Some (encode_b (ucast (offset_8_1 i)) (c_reg i 7) ZERO 1 OPCODE_BRANCH))"

definition code_expand2 :: "cinstruction \<Rightarrow> u32 option" where
  "code_expand2 i =
     (let f3 = c_funct3 i; d = bits_at (c_value i) 7 5; r2 = bits_at (c_value i) 2 5 in
      if f3 = 0 then (if uimm_5_0 i = 0 then None else Some (encode_i (uimm_5_0 i) d 1 d OPCODE_OP_IMM))
      else if f3 = 3 then (if d = 0 then None else Some (encode_i (offset_8_3_ldsp i) SP 3 d OPCODE_LOAD))
      else if f3 = 4 then
        (if d = 0 then None
         else if r2 = 0 then Some (encode_i 0 d 0 (if c_bit12 i = 0 then ZERO else RA) OPCODE_JALR)
         else Some (encode_r 0 r2 (if c_bit12 i = 0 then ZERO else d) 0 d OPCODE_OP))
      else if f3 = 7 then Some (encode_s (offset_8_3_sdsp i) SP r2 3 OPCODE_STORE)
      else None)"

definition code_expand :: "u16 \<Rightarrow> u32 option" where
  "code_expand w =
     (let i = cinstruction_new w in
      if c_op i = 0 then code_expand0 i else if c_op i = 1 then code_expand1 i
      else if c_op i = 2 then code_expand2 i else None)"

text \<open>The expanded instructions, executed with an arbitrary next pc.\<close>

lemma execute_at_op_imm:
  assumes "r < 0x20" "d < 0x20" "f3 < 8"
  shows "execute_at p n (instruction_new (encode_i imm r f3 d OPCODE_OP_IMM)) =
    and_then (get_reg (unat r)) (\<lambda>a. write_rd (instruction_new (encode_i imm r f3 d OPCODE_OP_IMM))
      (alu_imm (instruction_new (encode_i imm r f3 d OPCODE_OP_IMM)) a) n)"
  using assms by (simp add: execute_at_def decode_encode_i exec_op_imm_def)

lemma write_rd_Some: "write_rd i (Some v) n = and_then (set_reg (rd i) v) (\<lambda>_. ok n)"
  by (simp add: write_rd_def)

lemma execute_at_addi:
  assumes "r < 0x20" "d < 0x20"
  shows "execute_at p n (instruction_new (encode_i imm r 0 d OPCODE_OP_IMM)) =
    and_then (get_reg (unat r)) (\<lambda>a. and_then (set_reg (unat d) (a + sext imm 12)) (\<lambda>_. ok n))"
  using assms by (simp add: execute_at_op_imm alu_imm_def decode_encode_i Let_def write_rd_Some)

lemma execute_at_load:
  assumes "r < 0x20" "d < 0x20"
  shows "execute_at p n (instruction_new (encode_i imm r 3 d OPCODE_LOAD)) =
    and_then (get_reg (unat r)) (\<lambda>base. and_then (cpu_read (base + sext imm 12) 8)
      (\<lambda>v. and_then (set_reg (unat d) v) (\<lambda>_. ok n)))"
    "execute_at p n (instruction_new (encode_i imm r 2 d OPCODE_LOAD)) =
    and_then (get_reg (unat r)) (\<lambda>base. and_then (cpu_read (base + sext imm 12) 4)
      (\<lambda>v. and_then (set_reg (unat d) (c_sext (ucast v) 32)) (\<lambda>_. ok n)))"
  using assms by (simp_all add: execute_at_def decode_encode_i exec_load_def load_value_def and_then_assoc sext64_eq)

lemma execute_at_store:
  assumes "r1 < 0x20" "r2 < 0x20"
  shows "execute_at p n (instruction_new (encode_s imm r1 r2 3 OPCODE_STORE)) =
    and_then (get_reg (unat r1)) (\<lambda>base. and_then (get_reg (unat r2)) (\<lambda>v.
      and_then (cpu_write (base + sext imm 12) 8 v) (\<lambda>_. ok n)))"
    "execute_at p n (instruction_new (encode_s imm r1 r2 2 OPCODE_STORE)) =
    and_then (get_reg (unat r1)) (\<lambda>base. and_then (get_reg (unat r2)) (\<lambda>v.
      and_then (cpu_write (base + sext imm 12) 4 v) (\<lambda>_. ok n)))"
  using assms by (simp_all add: execute_at_def decode_encode_s exec_store_def Let_def)

lemma push_bits_at_less:
  assumes "k + m \<le> n" "n < 32"
  shows "push_bit k (bits_at x pos m) < 2 ^ n"
  using assms by (intro less_expI) (auto simp: bits_at_eq bit_simps)

lemma or_less_exp: "n < 32 \<Longrightarrow> (v :: u32) < 2 ^ n \<Longrightarrow> w < 2 ^ n \<Longrightarrow> v OR w < 2 ^ n"
  by (intro less_expI) (auto simp: bit_or_iff dest: not_bit_above)

lemma offset_bounds:
  "uimm_5_0 i < 0x40" "offset_6_2 i < 0x800" "offset_7_3 i < 0x800" "offset_8_3_ldsp i < 0x800" "offset_8_3_sdsp i < 0x800"
  "nzuimm_9_2 i = Inr v \<Longrightarrow> v < 0x800"
proof -
  note B = push_bits_at_less [of _ _ 11] and O = or_less_exp [of 11]
  have "uimm_5_0 i < 2 ^ 6"
    unfolding uimm_5_0_def
    using push_bits_at_less [of 0 5 6 "c_value i" 2] push_bits_at_less [of 5 1 6 "c_value i" 12]
    by (intro or_less_exp) simp_all
  moreover have "offset_6_2 i < 2 ^ 11" "offset_7_3 i < 2 ^ 11" "offset_8_3_ldsp i < 2 ^ 11" "offset_8_3_sdsp i < 2 ^ 11"
    unfolding offset_6_2_def offset_7_3_def offset_8_3_ldsp_def offset_8_3_sdsp_def by (intro O B; simp)+
  moreover have "v < 2 ^ 11" if "nzuimm_9_2 i = Inr v"
  proof -
    from that have "v = push_bit 4 (bits_at (c_value i) 11 2) OR push_bit 6 (bits_at (c_value i) 7 4)
              OR push_bit 2 (bits_at (c_value i) 6 1) OR push_bit 3 (bits_at (c_value i) 5 1)"
      by (simp add: nzuimm_9_2_def error_def Let_def split: if_splits)
    also have "\<dots> < 2 ^ 11" by (intro O B; simp)
    finally show ?thesis .
  qed
  ultimately show "uimm_5_0 i < 0x40" "offset_6_2 i < 0x800" "offset_7_3 i < 0x800" "offset_8_3_ldsp i < 0x800"
    "offset_8_3_sdsp i < 0x800" "nzuimm_9_2 i = Inr v \<Longrightarrow> v < 0x800" by simp_all
qed

lemma sext_offset: "v < 0x800 \<Longrightarrow> sext v 12 = ucast v"
  using sext_unsigned [of 12 v] by simp

lemma c_reg_less: "c_reg i pos < 0x20"
  and unat_c_reg: "unat (c_reg i pos) = unat (bits_at (c_value i) pos 3) + 8"
proof -
  have "unat (bits_at (c_value i) pos 3) < 8" using bits_at_less(3) [of "c_value i" pos] by (simp add: word_less_nat_alt)
  then show "unat (c_reg i pos) = unat (bits_at (c_value i) pos 3) + 8"
    by (simp add: c_reg_def unat_word_ariths)
  with \<open>unat (bits_at (c_value i) pos 3) < 8\<close> show "c_reg i pos < 0x20"
    by (simp add: word_less_nat_alt)
qed

lemmas c_reg_simps = c_reg_less unat_c_reg rs1_prime_def rs2_prime_def

lemma quadrant0_expands:
  "case code_expand0 i of
     None \<Rightarrow> \<exists>e. rvc_quadrant0 i next_pc (c, b) = (Inl (Emu e), (c, b))
   | Some x \<Rightarrow> rvc_quadrant0 i next_pc = execute_at p next_pc (instruction_new x)"
proof -
  have nz: "nzuimm_9_2 i = Inr v \<Longrightarrow> sext v 12 = ucast v" for v
    using offset_bounds(6) [of i v] by (rule sext_offset)
  have nze: "nzuimm_9_2 i = Inl e \<Longrightarrow> e = Emu Zero_immediate" for e
    by (auto simp: nzuimm_9_2_def error_def Let_def split: if_splits)
  show ?thesis
    unfolding code_expand0_def rvc_quadrant0_def Let_def
    by (auto simp: execute_at_addi execute_at_load execute_at_store c_reg_simps offset_bounds sext_offset nz lift_res_def and_then_def
       illegal_c_instruction_def error_def dest!: nze split: sum.split)
qed

lemma imm_5_0_sext: "sext (ucast (imm_5_0 i)) 12 = imm_5_0 i"
  by (simp add: imm_5_0_def c_sext_eq sext_sext)

lemma nzimm_9_4_sext: "nzimm_9_4 i = Inr v \<Longrightarrow> sext (ucast v) 12 = v"
  by (auto simp: nzimm_9_4_def nz_def error_def c_sext_eq sext_sext Let_def split: if_splits)

lemma offset_sext: "sext (ucast (offset_11_1 i)) 21 = offset_11_1 i" "sext (ucast (offset_8_1 i)) 13 = offset_8_1 i"
  by (simp_all add: offset_11_1_def offset_8_1_def c_sext_eq sext_sext)

lemma even_ucast: "even (ucast (w :: u64) :: u32) \<longleftrightarrow> even w"
proof -
  have "bit (ucast w :: u32) 0 = bit w 0" by (simp only: bit_ucast_iff) simp
  then show ?thesis by (simp add: bit_0)
qed

lemma even_offset: "even (ucast (offset_11_1 i) :: u32)" "even (ucast (offset_8_1 i) :: u32)"
  unfolding even_ucast offset_11_1_def offset_8_1_def c_sext_eq
  by (rule even_sext; simp only: bit_or_iff bit_push_bit_iff; simp)+

lemma lui_immediate: "scast ((push_bit 12 (ucast (imm_5_0 i)) :: u32) AND 0xfffff000) = push_bit 12 (imm_5_0 i)"
  unfolding upper_mask imm_5_0_def c_sext_eq 
  by (rule bit_word_eqI) (auto simp: sext_eq bit_simps min_def)

lemma zero_immediate_tests:
  "nzimm_5_0 i = (if imm_5_0 i = 0 then error Zero_immediate else Inr (imm_5_0 i))"
  "c_shamt i = (if uimm_5_0 i = 0 then error Zero_immediate else Inr (uimm_5_0 i))"
  "nzimm_9_4 i = Inl e \<Longrightarrow> e = Emu Zero_immediate"
  by (auto simp: nzimm_5_0_def c_shamt_def nzimm_9_4_def nz_def error_def Let_def split: if_splits)

lemma odd_bit_field: "odd (drop_bit n (ucast x :: u32)) \<longleftrightarrow> bit (x :: u16) n"
  by (auto simp: bit_simps dest: bit_imp_le_length simp flip: bit_iff_odd_drop_bit)

lemma funct6_fields:
  "c_funct6 i AND 3 = bits_at (c_value i) 10 2" "c_funct6 i AND 4 = 0 \<longleftrightarrow> c_bit12 i = 0"
proof -
  show "c_funct6 i AND 3 = bits_at (c_value i) 10 2"
    by (simp add: c_funct6_def bits_at_eq mask_literals)
  have "c_bit12 i = of_bool (bit (c_value i) 12)"
    by (simp add: c_bit12_def bits_at_eq mod_2_eq_odd odd_bit_field)
  then show "c_funct6 i AND 4 = 0 \<longleftrightarrow> c_bit12 i = 0"
    using and_exp_eq_0_iff_not_bit [of "c_funct6 i" 2] by (simp add: c_funct6_def bits_at_eq bit_simps)
qed

lemma c_rd_tests: "unat (bits_at (c_value i) 7 5) = c_rd i" "unat (bits_at (c_value i) 2 5) = c_rs2 i" 
  "bits_at (c_value i) 7 5 = 0 \<longleftrightarrow> c_rd i = 0" "bits_at (c_value i) 7 5 = 2 \<longleftrightarrow> c_rd i = 2"
   "bits_at (c_value i) 2 5 = 0 \<longleftrightarrow> c_rs2 i = 0"
  using word_unat_eq_iff [of "bits_at (c_value i) 7 5" 2] by (simp_all add: c_rd_def c_rs2_def unat_eq_0)

lemma small_cases:
  fixes x :: u32
  shows "x < 4 \<Longrightarrow> x \<in> {0, 1, 2, 3}" "x < 8 \<Longrightarrow> x \<in> {0, 1, 2, 3, 4, 5, 6, 7}"
proof -
  have x: "x = of_nat (unat x)" by simp
  show "x \<in> {0, 1, 2, 3}" if "x < 4"
  proof -
    from that have "unat x < 4" by (simp add: word_less_nat_alt)
    then have "unat x \<in> {0, 1, 2, 3}" by auto
    then show ?thesis by (subst x, elim insertE) (simp_all only: empty_iff, simp_all)
  qed
  show "x \<in> {0, 1, 2, 3, 4, 5, 6, 7}" if "x < 8"
  proof -
    from that have "unat x < 8" by (simp add: word_less_nat_alt)
    then have "unat x \<in> {0, 1, 2, 3, 4, 5, 6, 7}" by auto
    then show ?thesis by (subst x, elim insertE) (simp_all only: empty_iff, simp_all)
  qed
qed

lemma execute_at_addiw:
  assumes "r < 0x20" "d < 0x20"
  shows "execute_at p n (instruction_new (encode_i imm r 0 d OPCODE_OP_IMM_32)) =
    and_then (get_reg (unat r)) (\<lambda>a. and_then (set_reg (unat d) (scast (ucast a + ucast (sext imm 12) :: u32))) (\<lambda>_. ok n))"
  using assms by (simp add: execute_at_def decode_encode_i exec_op_imm_32_def alu_imm32_def Let_def write_rd_Some)

lemma execute_at_andi:
  assumes "r < 0x20" "d < 0x20"
  shows "execute_at p n (instruction_new (encode_i imm r 7 d OPCODE_OP_IMM)) =
    and_then (get_reg (unat r)) (\<lambda>a. and_then (set_reg (unat d) (a AND sext imm 12)) (\<lambda>_. ok n))"
  using assms by (simp add: execute_at_op_imm alu_imm_def decode_encode_i Let_def write_rd_Some)

lemma execute_at_lui:
  assumes "d < 0x20"
  shows "execute_at p n (instruction_new (encode_u imm d OPCODE_LUI)) =
    and_then (set_reg (unat d) (scast (imm AND 0xfffff000))) (\<lambda>_. ok n)"
  using assms by (simp add: execute_at_def decode_encode_u write_rd_Some)

lemma execute_at_shift:
  assumes "r < 0x20" "d < 0x20" "v < 0x40"
  shows "execute_at p n (instruction_new (encode_i v r 1 d OPCODE_OP_IMM)) =
    and_then (get_reg (unat r)) (\<lambda>a. and_then (set_reg (unat d) (push_bit (unat v) a)) (\<lambda>_. ok n))"
   "execute_at p n (instruction_new (encode_i v r 5 d OPCODE_OP_IMM)) =
    and_then (get_reg (unat r)) (\<lambda>a. and_then (set_reg (unat d) (drop_bit (unat v) a)) (\<lambda>_. ok n))"
   "execute_at p n (instruction_new (encode_i (0x400 OR v) r 5 d OPCODE_OP_IMM)) =
    and_then (get_reg (unat r)) (\<lambda>a. and_then (set_reg (unat d) (signed_drop_bit (unat v) a)) (\<lambda>_. ok n))"
proof -
  have t: "take_bit 6 v = v" "take_bit 6 (0x400 OR v) = v" using take_bit_below [of v 6] assms(3) by simp_all
  have nb: "\<not> bit v 10" using not_bit_above [of v 6 10] assms(3) by simp
  have f: "take_bit 7 (drop_bit 5 w) AND 0x20 = 0 \<longleftrightarrow> \<not> bit w 10" for w :: u32
    using and_exp_eq_0_iff_not_bit [of "take_bit 7 (drop_bit 5 w)" 5] by (simp add: bit_simps)
  have f7: "funct7 (instruction_new (encode_i v r 5 d OPCODE_OP_IMM)) AND 0x20 = 0"
    "funct7 (instruction_new (encode_i (0x400 OR v) r 5 d OPCODE_OP_IMM)) AND 0x20 \<noteq> 0"
    using decode_encode_i_low(3) [of r 5 d OPCODE_OP_IMM] assms(1,2) nb by (simp_all add: f bit_or_iff)
  show "execute_at p n (instruction_new (encode_i v r 1 d OPCODE_OP_IMM)) =
    and_then (get_reg (unat r)) (\<lambda>a. and_then (set_reg (unat d) (push_bit (unat v) a)) (\<lambda>_. ok n))"
   "execute_at p n (instruction_new (encode_i v r 5 d OPCODE_OP_IMM)) =
    and_then (get_reg (unat r)) (\<lambda>a. and_then (set_reg (unat d) (drop_bit (unat v) a)) (\<lambda>_. ok n))"
   "execute_at p n (instruction_new (encode_i (0x400 OR v) r 5 d OPCODE_OP_IMM)) =
    and_then (get_reg (unat r)) (\<lambda>a. and_then (set_reg (unat d) (signed_drop_bit (unat v) a)) (\<lambda>_. ok n))"
    using assms(1,2)
    by (simp_all add: execute_at_op_imm alu_imm_def decode_encode_i decode_encode_i_low(2) Let_def write_rd_Some f7 t)
qed

lemma decode_encode_r:
  assumes "f7 < 0x80" "r2 < 0x20" "r1 < 0x20" "f3 < 8" "d < 0x20" "opc < 0x80"
  shows "opcode (instruction_new (encode_r f7 r2 r1 f3 d opc)) = opc"
    "funct3 (instruction_new (encode_r f7 r2 r1 f3 d opc)) = f3"
    "rd (instruction_new (encode_r f7 r2 r1 f3 d opc)) = unat d"
    "rs1 (instruction_new (encode_r f7 r2 r1 f3 d opc)) = unat r1"
    "rs2 (instruction_new (encode_r f7 r2 r1 f3 d opc)) = unat r2"
    "funct7 (instruction_new (encode_r f7 r2 r1 f3 d opc)) = f7"
proof -
  have "take_bit 5 (push_bit 5 f7 OR r2) = r2"
    using take_bit_below [of r2 5] assms(2) by (simp add: take_bit_push_bit)
  moreover have "take_bit 7 (drop_bit 5 (push_bit 5 f7 OR r2)) = f7"
    using bits_above(2) [OF assms(2)] bits_above(3) [OF assms(1)]
    by (intro bit_word_eqI) (auto simp: bit_simps not_le [symmetric])
  ultimately show "opcode (instruction_new (encode_r f7 r2 r1 f3 d opc)) = opc"
    "funct3 (instruction_new (encode_r f7 r2 r1 f3 d opc)) = f3"
    "rd (instruction_new (encode_r f7 r2 r1 f3 d opc)) = unat d"
    "rs1 (instruction_new (encode_r f7 r2 r1 f3 d opc)) = unat r1"
    "rs2 (instruction_new (encode_r f7 r2 r1 f3 d opc)) = unat r2"
    "funct7 (instruction_new (encode_r f7 r2 r1 f3 d opc)) = f7"
    unfolding encode_r_def using assms by (simp_all only: decode_encode_i decode_encode_i_low)
qed

lemma execute_at_op:
  assumes "f7 < 0x80" "r2 < 0x20" "r1 < 0x20" "f3 < 8" "d < 0x20" "alu_op f3 f7 = (\<lambda>a b. Some (f a b))"
  shows "execute_at p n (instruction_new (encode_r f7 r2 r1 f3 d OPCODE_OP)) =
    and_then (get_reg (unat r1)) (\<lambda>a. and_then (get_reg (unat r2)) (\<lambda>b. and_then (set_reg (unat d) (f a b)) (\<lambda>_. ok n)))"
  using assms by (simp add: execute_at_def decode_encode_r exec_op_def write_rd_Some)

lemma execute_at_op_32:
  assumes "f7 < 0x80" "r2 < 0x20" "r1 < 0x20" "f3 < 8" "d < 0x20" "alu_op32 f3 f7 = (\<lambda>a b. Some (f a b))"
  shows "execute_at p n (instruction_new (encode_r f7 r2 r1 f3 d OPCODE_OP_32)) =
    and_then (get_reg (unat r1)) (\<lambda>a. and_then (get_reg (unat r2)) (\<lambda>b. and_then (set_reg (unat d) (scast (f (ucast a) (ucast b)))) (\<lambda>_. ok n)))"
  using assms by (simp add: execute_at_def decode_encode_r exec_op_32_def write_rd_Some)

lemma alu_ops:
  "alu_op 0 0x20 = (\<lambda>a b. Some (a - b))" "alu_op 0 0 = (\<lambda>a b. Some (a + b))" "alu_op 4 0 = (\<lambda>a b. Some (a XOR b))"
  "alu_op 6 0 = (\<lambda>a b. Some (a OR b))" "alu_op 7 0 = (\<lambda>a b. Some (a AND b))"
  "alu_op32 0 0x20 = (\<lambda>a b. Some (a - b))" "alu_op32 0 0 = (\<lambda>a b. Some (a + b))"
  by (simp_all add: alu_op_def alu_op32_def fun_eq_iff)

lemma execute_at_jal:
  assumes "even imm"
  shows "execute_at p n (instruction_new (encode_j imm ZERO OPCODE_JAL)) (c, b) = (Inr (p + sext imm 21), (c, b))"
  using assms by (simp add: execute_at_def decode_encode_j exec_jal_def set_reg_in_range and_then_def ok_def)

lemma get_x0: "x0_zero (regs c) \<Longrightarrow> get_reg 0 (c, b) = (Inr 0, (c, b))"
  by (simp add: get_reg_def x0_zero_def)

lemma execute_at_branch_zero:
  assumes "r < 0x20" "even imm" "x0_zero (regs c)"
  shows "execute_at p n (instruction_new (encode_b imm r ZERO 0 OPCODE_BRANCH)) (c, b) =
      and_then (get_reg (unat r)) (\<lambda>a. ok (if a = 0 then p + sext imm 13 else n)) (c, b)"
    "execute_at p n (instruction_new (encode_b imm r ZERO 1 OPCODE_BRANCH)) (c, b) =
      and_then (get_reg (unat r)) (\<lambda>a. ok (if a \<noteq> 0 then p + sext imm 13 else n)) (c, b)"
proof -
  have "unat r < 32" using assms(1) by (simp add: word_less_nat_alt)
  then show "execute_at p n (instruction_new (encode_b imm r ZERO 0 OPCODE_BRANCH)) (c, b) =
      and_then (get_reg (unat r)) (\<lambda>a. ok (if a = 0 then p + sext imm 13 else n)) (c, b)"
    "execute_at p n (instruction_new (encode_b imm r ZERO 1 OPCODE_BRANCH)) (c, b) =
      and_then (get_reg (unat r)) (\<lambda>a. ok (if a \<noteq> 0 then p + sext imm 13 else n)) (c, b)"
    using assms by (simp_all add: execute_at_def decode_encode_b exec_branch_def branch_taken_def and_then_def ok_def
        get_reg_in_range x0_zero_def)
qed

lemma alu_expands:
  "case code_expand_alu i of
     None \<Rightarrow> \<exists>e. rvc_alu i next_pc (c, b) = (Inl (Emu e), (c, b))
   | Some x \<Rightarrow> rvc_alu i next_pc = execute_at p next_pc (instruction_new x)"
proof -
  have sel: "bits_at (c_value i) 10 2 \<in> {0, 1, 2, 3}" and f2: "c_funct2 i \<in> {0, 1, 2, 3}"
    unfolding c_funct2_def by (intro small_cases(1) bits_at_less)+
  have r: "rs1_prime i < 32" "rs2_prime i < 32"
    using c_reg_less [of i 7] c_reg_less [of i 2] by (simp_all add: word_less_nat_alt unat_c_reg rs1_prime_def rs2_prime_def)
  note X = execute_at_shift execute_at_andi execute_at_op [OF _ _ _ _ _ alu_ops(1)] execute_at_op [OF _ _ _ _ _ alu_ops(3)]
    execute_at_op [OF _ _ _ _ _ alu_ops(4)] execute_at_op [OF _ _ _ _ _ alu_ops(5)]
    execute_at_op_32 [OF _ _ _ _ _ alu_ops(6)] execute_at_op_32 [OF _ _ _ _ _ alu_ops(7)]
  from sel f2 show ?thesis
    unfolding code_expand_alu_def rvc_alu_def Let_def funct6_fields
    by (auto simp: X c_reg_less unat_c_reg rs1_prime_def [symmetric] rs2_prime_def [symmetric] offset_bounds imm_5_0_sext c_update_def zero_immediate_tests error_def
      lift_res_def and_then_def get_reg_in_range r illegal_c_instruction_def fun_eq_iff)
qed


lemma quadrant1_expands:
  assumes "x0_zero (regs c)"
  shows "case code_expand1 i of
     None \<Rightarrow> \<exists>e. rvc_quadrant1 i p next_pc (c, b) = (Inl (Emu e), (c, b))
   | Some x \<Rightarrow> rvc_quadrant1 i p next_pc (c, b) = execute_at p next_pc (instruction_new x) (c, b)"
proof -
  have f3: "c_funct3 i \<in> {0, 1, 2, 3, 4, 5, 6, 7}"
    unfolding c_funct3_def by (intro small_cases(2) bits_at_less)
  have alu: "case code_expand_alu i of
     None \<Rightarrow> \<exists>e. rvc_alu i next_pc (c, b) = (Inl (Emu e), (c, b))
   | Some x \<Rightarrow> rvc_alu i next_pc (c, b) = execute_at p next_pc (instruction_new x) (c, b)"
    using alu_expands [of i next_pc c b p] by (auto split: option.splits)
  have d: "c_rd i < 32" using bits_at_less(5) [of "c_value i" 7] by (simp add: c_rd_def word_less_nat_alt)
  have r: "rs1_prime i < 32" using c_reg_less [of i 7] by (simp add: word_less_nat_alt unat_c_reg rs1_prime_def)
  have x0: "reg_array (regs c) 0 = 0" using assms by (simp add: x0_zero_def)
  note X = execute_at_addi execute_at_addiw execute_at_lui execute_at_jal execute_at_branch_zero
  from f3 alu show ?thesis
    unfolding code_expand1_def rvc_quadrant1_def Let_def
    by (auto simp: X assms x0 c_rd_tests c_reg_less unat_c_reg rs1_prime_def [symmetric] imm_5_0_sext lui_immediate
        offset_sext even_offset get_x0 c_update_def zero_immediate_tests nzimm_9_4_sext error_def lift_res_def and_then_def ok_def
        d r get_reg_in_range set_reg_in_range illegal_c_instruction_def split: sum.split dest!: zero_immediate_tests(3))
qed

definition jump_target_even :: "cinstruction \<Rightarrow> cpu \<Rightarrow> bool" where
  "jump_target_even i c \<longleftrightarrow>
     (c_op i = 2 \<and> c_funct3 i = 4 \<and> c_rs2 i = 0 \<longrightarrow> even (reg_array (regs c) (c_rs1 i)))"

lemma clear_bit_0: "even (w :: u64) \<Longrightarrow> w AND NOT 1 = w"
  by (rule bit_word_eqI) (auto simp: bit_simps bit_1_iff bit_0)

lemma execute_at_jalr:
  assumes "r < 0x20" "d < 0x20" "even (reg_array (regs c) (unat r))"
  shows "execute_at p n (instruction_new (encode_i 0 r 0 d OPCODE_JALR)) (c, b) =
    and_then (get_reg (unat r)) (\<lambda>a. and_then (set_reg (unat d) n) (\<lambda>_. ok a)) (c, b)"
proof -
  have "unat r < 32" using assms(1) by (simp add: word_less_nat_alt)
  moreover have "sext 0 12 = 0" by (simp add: sext_def)
  ultimately show ?thesis
    using assms clear_bit_0 [OF assms(3)]
    by (simp add: execute_at_def decode_encode_i exec_jalr_def get_reg_in_range and_then_def Let_def split: prod.split sum.split)
qed

lemma quadrant2_expands:
  assumes "x0_zero (regs c)" "c_op i = 2" "jump_target_even i c"
  shows "case code_expand2 i of
     None \<Rightarrow> \<exists>e. rvc_quadrant2 i p (p + 2) (c, b) = (Inl (Emu e), (c, b))
   | Some x \<Rightarrow> rvc_quadrant2 i p (p + 2) (c, b) = execute_at p (p + 2) (instruction_new x) (c, b)"
proof -
  have f3: "c_funct3 i \<in> {0, 1, 2, 3, 4, 5, 6, 7}"
    unfolding c_funct3_def by (intro small_cases(2) bits_at_less)
  have d: "c_rd i < 32" "c_rs2 i < 32"
    using bits_at_less(5) [of "c_value i"] by (simp_all add: c_rd_def c_rs2_def word_less_nat_alt)
  have x0: "reg_array (regs c) 0 = 0" using assms(1) by (simp add: x0_zero_def)
  note X = execute_at_shift execute_at_load execute_at_store execute_at_op [OF _ _ _ _ _ alu_ops(2)]
  have jr: "execute_at p (p + 2) (instruction_new (encode_i 0 (bits_at (c_value i) 7 5) 0 r OPCODE_JALR)) (c, b) =
    and_then (get_reg (c_rd i)) (\<lambda>a. and_then (set_reg (unat r) (p + 2)) (\<lambda>_. ok a)) (c, b)"
    if "c_funct3 i = 4" "c_rs2 i = 0" "r < 0x20" for r
    using assms(2,3) that execute_at_jalr [of "bits_at (c_value i) 7 5" r c p "p + 2" b]
    by (simp add: jump_target_even_def c_rs1_def c_rd_tests)
  from f3 show ?thesis
    unfolding code_expand2_def rvc_quadrant2_def Let_def
    by (auto simp: X jr x0 c_rd_tests c_rs1_def offset_bounds sext_offset get_x0 c_update_def zero_immediate_tests error_def
        lift_res_def and_then_def ok_def d get_reg_in_range set_reg_in_range illegal_c_instruction_def split: sum.split)
qed

text \<open>All quadrants together, on the table written with the accessors.\<close>

lemma code_expands:
  assumes "x0_zero (regs c)" "jump_target_even (cinstruction_new w) c"
  shows "case code_expand w of
     Some x \<Rightarrow> rvc_execute (cinstruction_new w) (c, b) = execute_at (pc c) (pc c + 2) (instruction_new x) (c, b)
   | None \<Rightarrow> \<exists>e. rvc_execute (cinstruction_new w) (c, b) = (Inl (Emu e), (c, b))"
proof -
  have q0: "case code_expand0 i of
     None \<Rightarrow> \<exists>e. rvc_quadrant0 i next_pc (c, b) = (Inl (Emu e), (c, b))
   | Some x \<Rightarrow> rvc_quadrant0 i next_pc (c, b) = execute_at (pc c) next_pc (instruction_new x) (c, b)" for i next_pc
    using quadrant0_expands [of i next_pc c b "pc c"] by (auto split: option.splits)
  let ?i = "cinstruction_new w"
  have ex: "rvc_execute ?i (c, b) =
      (if c_op ?i = 0 then rvc_quadrant0 ?i (pc c + 2) else if c_op ?i = 1 then rvc_quadrant1 ?i (pc c) (pc c + 2)
       else if c_op ?i = 2 then rvc_quadrant2 ?i (pc c) (pc c + 2) else illegal_c_instruction ?i) (c, b)"
    by (simp add: rvc_execute_def and_then_def gets_def Let_def)
  show ?thesis
    using q0 [of ?i "pc c + 2"] quadrant1_expands [OF assms(1), of ?i "pc c" "pc c + 2" b]
      quadrant2_expands [OF assms(1) _ assms(2), of "pc c" b]
    unfolding code_expand_def ex by (simp add: Let_def illegal_c_instruction_def error_def)
qed

end
