(* ===== verification/Hart_Contract.thy ===== *)
theory Hart_Contract
  imports Cpu Rvc_Expansion
begin

text \<open>
  The interface between a hart and what is proved about it: a locale with the primitive state
  changes of \<^verbatim>\<open>cpu.rs\<close> and its calls of the bus as assumptions, under which every operation of the
  hart, up to \<open>step\<close>, keeps a property of the machine. The machine theories interpret it.
\<close>

section \<open>What a hart keeps\<close>

lemma keeps_machineI:
  assumes "\<And>c b. P (c, b) \<Longrightarrow> P (snd (m (c, b)))" "\<And>c b e. P (c, b) \<Longrightarrow> fst (m (c, b)) = Inl e \<Longrightarrow> E e"
  shows "keeps P E m"
  using assms by (auto simp: keeps_def)

lemma keeps_at: "keeps P E m \<Longrightarrow> P s \<Longrightarrow> P (snd (m s)) \<and> (\<forall>e. fst (m s) = Inl e \<longrightarrow> E e)"
  by (simp add: keeps_def)

lemma on_snd_and_then: "on_snd (and_then m f) = and_then (on_snd m) (\<lambda>x. on_snd (f x))"
  by (auto simp: on_snd_def and_then_def fun_eq_iff split: prod.splits sum.splits)

lemma on_snd_simps: "on_snd (ok x) = ok x" "on_snd (fail e) = fail e"
  "on_snd (if t then m else n) = (if t then on_snd m else on_snd n)"
  by (auto simp: on_snd_def ok_def fail_def fun_eq_iff)

lemma c_fields:
  "c_rd i < 32" "c_rs1 i < 32" "c_rs2 i < 32" "rs1_prime i < 32" "rs2_prime i < 32"
  using bits_at_less(5) [of "c_value i"] c_reg_less [of i 7] c_reg_less [of i 2]
  by (simp_all add: c_rs1_def c_rd_def c_rs2_def word_less_nat_alt unat_c_reg rs1_prime_def rs2_prime_def)

lemma csr_field: "csr (instruction_new w) < 0x1000"
  using take_bit_less [of 12 "drop_bit 20 w"] by (simp add: field_defs)

text \<open>
  The contract between a hart and a property \<open>P\<close> of the machine: every primitive change of the hart
  keeps \<open>P\<close>, so do the accesses to the bus and the two device polls, and what they fault with
  satisfies \<open>E\<close>. Everything the hart does is built from these, so a whole step keeps \<open>P\<close> too.
\<close>

locale hart_contract =
  fixes P :: "machine \<Rightarrow> bool" and E :: "fault \<Rightarrow> bool"
  assumes emu: "E (Emu e)"
    and reg_change: "0 < i \<Longrightarrow> i < 32 \<Longrightarrow> P (c, b)
      \<Longrightarrow> P (c\<lparr>regs := (regs c)\<lparr>reg_array := (reg_array (regs c))(i := v)\<rparr>\<rparr>, b)"
    and pc_change: "P (c, b) \<Longrightarrow> P (c\<lparr>pc := v\<rparr>, b)"
    and csr_change: "x < 0x1000 \<Longrightarrow> x \<noteq> MHARTID \<Longrightarrow> P (c, b) \<Longrightarrow> P (cset x v c, b)"
    and mode_change: "m < 4 \<Longrightarrow> P (c, b) \<Longrightarrow> P (c\<lparr>mode := m\<rparr>, b)"
    and tlb_change: "P (c, b) \<Longrightarrow> P (c\<lparr>tlb := t\<rparr>, b)"
    and read_keeps: "n \<in> {1, 2, 4, 8} \<Longrightarrow> keeps P E (on_snd (bus_read a n))"
    and write_keeps: "n \<in> {1, 2, 4, 8} \<Longrightarrow> keeps P E (on_snd (bus_write a n v))"
    and tick_keeps: "keeps P E tick_clint"
    and poll_keeps: "keeps P E poll_uart"
    and sample_faults: "P (c, b) \<Longrightarrow> sampled_mip (heap b) c = Inl f \<Longrightarrow> E f"
begin

lemma error_faults: "error e = Inl f \<Longrightarrow> E f"
  using emu by (auto simp: error_def)

lemma get_reg_keeps: "i < 32 \<Longrightarrow> keeps P E (get_reg i)"
  by (rule keeps_machineI) (simp_all add: get_reg_in_range)

lemma set_reg_keeps: "i < 32 \<Longrightarrow> keeps P E (set_reg i v)"
  by (rule keeps_machineI) (auto simp: set_reg_in_range intro: reg_change)

lemma on_cpu_keeps: "(\<And>c b. P (c, b) \<Longrightarrow> P (f c, b)) \<Longrightarrow> keeps P E (on_cpu f)"
  by (rule keeps_machineI) (auto simp: on_cpu_def)

lemma csr_write_keeps:
  assumes "a < 0x1000" "P (c, b)"
  shows "P (csr_write c a v, b)"
proof -
  have cell: "csr_cell a < 0x1000" "a \<noteq> MHARTID \<Longrightarrow> csr_cell a \<noteq> MHARTID"
    using assms(1) by (auto simp: csr_cell_def)
  show ?thesis
    using assms cell by (auto simp: csr_write_table Let_def intro!: csr_change tlb_change)
qed

lemma enter_keeps_P: "P (c, b) \<Longrightarrow> P (snd (enter_m c v t), b)" "P (c, b) \<Longrightarrow> P (snd (enter_s c v t), b)"
  unfolding enter_m_def enter_s_def Let_def snd_conv
  by (intro mode_change csr_change; (assumption | simp only: less_numeral_simps | simp))+

lemma raise_trap_keeps: "P (c, b) \<Longrightarrow> P (snd (raise_trap c cause is_int tval), b)"
  unfolding raise_trap_def Let_def by (simp add: enter_keeps_P)

lemma priority_loop_keeps: "P (c, b) \<Longrightarrow> P (snd (priority_loop c pe ms causes), b)"
proof (induction causes)
  case (Cons cause rest)
  show ?case
  proof (cases "deliverable c pe ms cause")
    case True
    with pc_change [OF raise_trap_keeps [OF Cons.prems, of cause True 0]] show ?thesis
      by (simp add: split_beta)
  qed (use Cons in simp)
qed simp

lemma check_interrupt_keeps: "keeps P E check_interrupt"
proof (rule keeps_machineI)
  fix c b assume p: "P (c, b)"
  then have "P (cset MIP v c, b)" for v by (intro csr_change) simp_all
  with p show "P (snd (check_interrupt (c, b)))"
    using priority_loop_keeps
    by (auto simp: check_interrupt_def Let_def split: sum.split prod.splits) (metis snd_conv)
  show "fst (check_interrupt (c, b)) = Inl e \<Longrightarrow> E e" for e
    using sample_faults [OF p] by (auto simp: check_interrupt_def Let_def split: sum.splits if_splits prod.splits)
qed

lemma walk_keeps: "keeps P E (on_snd (walk va n a))"
proof (induction n arbitrary: a)
  case 0
  show ?case by (simp add: on_snd_simps keeps_fail emu)
next
  case (Suc n)
  have "keeps P E (on_snd (bus_read x (ucast PTE_SIZE)))" for x by (rule read_keeps) simp
  then show ?case
    unfolding walk.simps Let_def on_snd_and_then on_snd_simps by (intro keeps_intros Suc emu)
qed

lemma translate_miss_keeps: "keeps P E (translate_miss va acc satp)"
  unfolding translate_miss_def Let_def
  by (intro keeps_intros walk_keeps emu on_cpu_keeps tlb_change)
    (auto simp: leaf_ppn_def Let_def error_faults split: if_splits)

lemma translate_keeps: "keeps P E (translate va acc)"
proof (rule keeps_machineI)
  fix c b assume p: "P (c, b)"
  note m = keeps_at [OF translate_miss_keeps p]
  show "P (snd (translate va acc (c, b)))"
    using p m by (auto simp: translate_def translate_paged_def Let_def split: option.split)
  show "fst (translate va acc (c, b)) = Inl e \<Longrightarrow> E e" for e
    using m by (auto simp: translate_def translate_paged_def Let_def error_faults split: option.splits if_splits prod.splits)
qed

lemma cpu_read_keeps: "n \<in> {1, 2, 4, 8} \<Longrightarrow> keeps P E (cpu_read a n)"
  unfolding cpu_read_def by (intro keeps_intros translate_keeps read_keeps)

lemma cpu_write_keeps: "n \<in> {1, 2, 4, 8} \<Longrightarrow> keeps P E (cpu_write a n v)"
  unfolding cpu_write_def by (intro keeps_intros translate_keeps write_keeps)

lemma illegal_keeps: "keeps P E (illegal_instruction i)" "keeps P E (illegal_c_instruction j)"
  by (auto intro!: keeps_machineI simp: illegal_instruction_def illegal_c_instruction_def error_faults)

lemma write_rd_keeps: "rd i < 32 \<Longrightarrow> keeps P E (write_rd i v n)"
  unfolding write_rd_def by (intro keeps_intros set_reg_keeps illegal_keeps)

lemmas hart_keeps = keeps_intros get_reg_keeps set_reg_keeps write_rd_keeps illegal_keeps
  cpu_read_keeps [of 1, simplified] cpu_read_keeps [of 2, simplified] cpu_read_keeps [of 4, simplified] cpu_read_keeps [of 8, simplified]
  cpu_write_keeps [of 1, simplified] cpu_write_keeps [of 2, simplified] cpu_write_keeps [of 4, simplified] cpu_write_keeps [of 8, simplified]

lemma csr_update_keeps: "rd i < 32 \<Longrightarrow> csr i < 0x1000 \<Longrightarrow> keeps P E (csr_update i f n)"
  unfolding csr_update_def by (intro hart_keeps on_cpu_keeps csr_write_keeps)

lemma ecall_keeps: "keeps P E exec_ecall"
proof (rule keeps_machineI)
  fix c b assume "P (c, b)"
  from raise_trap_keeps [OF this, of "8 + ucast (mode c)" False 0] show "P (snd (exec_ecall (c, b)))"
    by (simp add: exec_ecall_def split_beta)
qed (auto simp: exec_ecall_def split: prod.splits)

lemma return_keeps: "keeps P E exec_mret" "keeps P E exec_sret"
proof -
  have m: "(ucast (drop_bit 11 (w AND MSTATUS_MPP)) :: u8) < 2 ^ 2" for w
    by (rule less_expI) (auto simp only: bit_ucast_iff bit_drop_bit_eq bit_and_iff status_literals o_def, simp)
  have s: "(ucast (drop_bit 8 (w AND MSTATUS_SPP)) :: u8) < 4" for w
    unfolding previous_mode_s by (cases "bit w 8") simp_all
  show "keeps P E exec_mret" "keeps P E exec_sret"
    using m s by (auto intro!: keeps_machineI mode_change csr_change simp: exec_mret_def exec_sret_def Let_def)
qed

lemma system_keeps: "rd i < 32 \<Longrightarrow> rs1 i < 32 \<Longrightarrow> csr i < 0x1000 \<Longrightarrow> keeps P E (execute_system i n)"
  unfolding execute_system_def Let_def exec_sfence_vma_def
  by (intro hart_keeps csr_update_keeps ecall_keeps return_keeps on_cpu_keeps tlb_change)

lemma execute_keeps:
  assumes "rd i < 32" "rs1 i < 32" "rs2 i < 32" "csr i < 0x1000"
  shows "keeps P E (execute i)"
  unfolding execute_def execute_at_def exec_load_def load_value_def exec_store_def exec_branch_def exec_jal_def exec_jalr_def
    exec_op_imm_def exec_op_imm_32_def exec_op_def exec_op_32_def exec_amo_def Let_def
  by (intro hart_keeps system_keeps assms)

lemma shift_keeps: "r < 32 \<Longrightarrow> keeps P E (and_then (lift_res (c_shamt i)) (\<lambda>sh. c_update r (f sh) n))"
  unfolding c_update_def c_shamt_def Let_def by (intro hart_keeps) (auto simp: error_faults split: if_splits)

lemma rvc_alu_keeps: "keeps P E (rvc_alu i n)"
proof -
  have r: "rs1_prime i < 32" "rs2_prime i < 32" by (rule c_fields)+
  have sel: "c_funct6 i AND 3 \<in> {0, 1, 2, 3}" and f2: "c_funct2 i \<in> {0, 1, 2, 3}"
    unfolding c_funct2_def funct6_fields(1) by (intro small_cases(1) bits_at_less)+
  show ?thesis
    unfolding rvc_alu_def Let_def c_update_def
    by (intro hart_keeps shift_keeps [unfolded c_update_def] r; use sel f2 in auto)
qed

lemma rvc_execute_keeps: "keeps P E (rvc_execute i)"
proof -
  have z: "c_shamt i = Inl e \<Longrightarrow> E e" "nzimm_5_0 i = Inl e \<Longrightarrow> E e" "nzuimm_9_2 i = Inl e \<Longrightarrow> E e" "nzimm_9_4 i = Inl e \<Longrightarrow> E e" for e
    by (auto simp: c_shamt_def nzimm_5_0_def nzuimm_9_2_def nzimm_9_4_def nz_def Let_def error_faults split: if_splits)
  have "(2::nat) < 32" "(1::nat) < 32" by simp_all
  then show ?thesis
    unfolding rvc_execute_def rvc_quadrant0_def rvc_quadrant1_def rvc_quadrant2_def c_update_def Let_def
    by (intro hart_keeps rvc_alu_keeps c_fields z)
qed

lemma step_keeps: "keeps P E step"
proof -
  have e: "keeps P E (cpu_execute (instruction_new w))" for w
    unfolding cpu_execute_def by (intro hart_keeps execute_keeps on_cpu_keeps pc_change) (simp_all add: csr_field)
  have c: "keeps P E (execute_compressed i)" for i
    unfolding execute_compressed_def by (intro hart_keeps rvc_execute_keeps on_cpu_keeps pc_change)
  have "keeps P E (on_snd (bus_read a 4))" for a by (rule read_keeps) simp
  then show ?thesis
    unfolding step_def fetch_def and_then_assoc Let_def and_then_ok
    by (intro keeps_intros tick_keeps poll_keeps check_interrupt_keeps translate_keeps) (simp_all add: e c)
qed

end

end
