(* ===== verification/Machine_Invariants.thy ===== *)
theory Machine_Invariants
  imports Emulator Hart_Contract
begin

text \<open>
  What the machines of \<^verbatim>\<open>emulator.rs\<close> keep while they run: the address map and the harts' own
  invariant for the xv6 machine under any interleaving of its harts, the order of the scheduler's
  rounds, and the absence of panics on the plain machine.
\<close>

section \<open>The address map\<close>

text \<open>What the bus decodes by and the sizes behind it.\<close>

type_synonym bus_map =
  "(range \<times> range \<times> range \<times> range \<times> range \<times> range \<times> range)
     \<times> (nat option \<times> nat option \<times> nat option \<times> nat option) \<times> (nat \<times> nat \<times> nat)"

definition bus_layout :: "bus \<Rightarrow> bus_map" where
  "bus_layout b = ((ram_range b, stack_range b, bootloader_range b, clint_range b, uart_range b, plic_range b, virtio_range b),
     (bus_clint b, bus_uart b, bus_plic b, bus_virtio b),
     (length (ram_data (bus_ram b)), length (ram_data (bus_stack b)), length (ram_data (bus_bootloader b))))"

lemma layout_heap [simp]: "bus_layout (b\<lparr>heap := h\<rparr>) = bus_layout b" "bus_layout (set_virtio_cell i x b) = bus_layout b"
  by (simp_all add: bus_layout_def set_virtio_cell_def)

lemma layout_device [simp]:
  "bus_layout (snd (on_clint mc b)) = bus_layout b" "bus_layout (snd (on_uart mu b)) = bus_layout b"
  "bus_layout (snd (on_plic mp b)) = bus_layout b"
  by (simp_all add: on_clint_def on_uart_def on_plic_def split: option.split prod.split)

lemma layout_memory:
  "(\<And>r. length (ram_data (snd (m r))) = length (ram_data r)) \<Longrightarrow> bus_layout (snd (on_ram m b)) = bus_layout b"
  "(\<And>r. length (ram_data (snd (m r))) = length (ram_data r)) \<Longrightarrow> bus_layout (snd (on_stack m b)) = bus_layout b"
  "(\<And>r. length (ram_data (snd (m r))) = length (ram_data r)) \<Longrightarrow> bus_layout (snd (on_bootloader m b)) = bus_layout b"
  by (simp_all add: bus_layout_def on_field_eqs)

lemma layout_virtio:
  assumes "\<And>s. bus_layout (snd (snd (m s))) = bus_layout (snd s)"
  shows "bus_layout (snd (on_virtio m b)) = bus_layout b"
proof (cases "bus_virtio b")
  case (Some i)
  show ?thesis
  proof (cases "virtios (heap b) i")
    case (Available v)
    show ?thesis
      using assms [of "(v, set_virtio_cell i Borrowed_mut b)"] Some Available
      by (simp add: on_virtio_def split_beta)
  qed (simp add: on_virtio_def Some)
qed (simp add: on_virtio_def)

lemma layout_read: "bus_layout (snd (bus_read a n b)) = bus_layout b"
  using ram_read_pure [of _ n]
  by (simp add: bus_read_def read_mmio_def layout_memory pure_op_state layout_virtio on_fst_def split_beta)

lemma layout_write_with:
  assumes "\<And>a n v s. bus_layout (snd (snd (vw a n v s))) = bus_layout (snd s)"
  shows "bus_layout (snd (bus_write_with vw a n v b)) = bus_layout b"
  by (simp add: bus_write_with_def write_mmio_with_def layout_memory layout_virtio assms)

lemma layout_dma_write: "bus_layout (snd (bus_dma_write a n v b)) = bus_layout b"
  unfolding bus_dma_write_def by (rule layout_write_with) (simp add: fail_def)

interpretation layout_dma: dma_bus "\<lambda>b. bus_layout b = L" bus_read bus_dma_write bus_dma_write for L
  by unfold_locales (auto simp: keeps_def agrees_def layout_read layout_dma_write)

lemma layout_write: "bus_layout (snd (bus_write a n v b)) = bus_layout b"
  unfolding bus_write_def
proof (rule layout_write_with)
  fix a n v and s :: "virtio_blk \<times> bus"
  show "bus_layout (snd (snd (virtio_write bus_read bus_dma_write a n v s))) = bus_layout (snd s)"
    using layout_dma.virtio_write_agrees [of "bus_layout (snd s)" a n v]
    by (cases s) (simp add: agrees_def)
qed

section \<open>The invariant of a hart\<close>

definition hart_wf :: "u64 \<Rightarrow> cpu \<Rightarrow> bool" where
  "hart_wf h c \<longleftrightarrow> x0_zero (regs c) \<and> mode c < 4 \<and> hartid c = h \<and> csr_get (csrs c) MHARTID = h"

lemma poll_uart_cpu: "snd (poll_uart (c, b)) = (c', b') \<Longrightarrow> \<exists>n. c' = c\<lparr>uart_poll_countdown := n\<rparr> \<and> bus_layout b' = bus_layout b"
  by (auto simp: poll_uart_def Let_def split: option.splits prod.splits sum.splits if_splits intro: exI [of _ "uart_poll_countdown c"])

lemma tick_clint_cpu: "snd (tick_clint (c, b)) = (c', b') \<Longrightarrow> c' = c \<and> bus_layout b' = bus_layout b"
  by (auto simp: tick_clint_def split: option.splits)

interpretation hart: hart_contract "\<lambda>m. hart_wf h (fst m) \<and> bus_layout (snd m) = L" "\<lambda>_. True" for h L
proof unfold_locales
  fix i :: nat and c b v assume "0 < i" "hart_wf h (fst (c, b)) \<and> bus_layout (snd (c, b)) = L"
  then show "hart_wf h (fst (c\<lparr>regs := (regs c)\<lparr>reg_array := (reg_array (regs c))(i := v)\<rparr>\<rparr>, b)) \<and>
    bus_layout (snd (c\<lparr>regs := (regs c)\<lparr>reg_array := (reg_array (regs c))(i := v)\<rparr>\<rparr>, b)) = L"
    by (simp add: hart_wf_def x0_zero_def)
next
  fix x :: u32 and c b v assume x: "x < 0x1000" "x \<noteq> MHARTID" and "hart_wf h (fst (c, b)) \<and> bus_layout (snd (c, b)) = L"
  then show "hart_wf h (fst (cset x v c, b)) \<and> bus_layout (snd (cset x v c, b)) = L"
    using low12_self [OF x(1)] by (auto simp: hart_wf_def)
next
  fix a n show "keeps (\<lambda>m. hart_wf h (fst m) \<and> bus_layout (snd m) = L) (\<lambda>_. True) (on_snd (bus_read a n))"
    by (rule keeps_on_snd) (simp add: keeps_def layout_read)
next
  fix a n v show "keeps (\<lambda>m. hart_wf h (fst m) \<and> bus_layout (snd m) = L) (\<lambda>_. True) (on_snd (bus_write a n v))"
    by (rule keeps_on_snd) (simp add: keeps_def layout_write)
next
  show "keeps (\<lambda>m. hart_wf h (fst m) \<and> bus_layout (snd m) = L) (\<lambda>_. True) tick_clint"
    by (rule keeps_machineI) (metis fst_conv snd_conv surj_pair tick_clint_cpu, simp)
next
  show "keeps (\<lambda>m. hart_wf h (fst m) \<and> bus_layout (snd m) = L) (\<lambda>_. True) poll_uart"
  proof (rule keeps_machineI)
    fix c b assume p: "hart_wf h (fst (c, b)) \<and> bus_layout (snd (c, b)) = L"
    obtain c' b' where s: "snd (poll_uart (c, b)) = (c', b')" by fastforce
    with poll_uart_cpu [OF s] p show "hart_wf h (fst (snd (poll_uart (c, b)))) \<and> bus_layout (snd (snd (poll_uart (c, b)))) = L"
      by (auto simp: hart_wf_def)
  qed simp
qed (simp_all add: hart_wf_def)

text \<open>Any interleaving of steps of the harts of a machine, whether they return or fault.\<close>

inductive harts_run :: "cpu list \<times> bus \<Rightarrow> cpu list \<times> bus \<Rightarrow> bool" where
  harts_start: "harts_run s s"
| hart_step: "harts_run s (cs, b) \<Longrightarrow> i < length cs \<Longrightarrow> step (cs ! i, b) = (r, (c', b')) \<Longrightarrow> harts_run s (cs[i := c'], b')"

lemma harts_run_keeps:
  assumes "harts_run s t" "\<forall>i < length (fst s). hart_wf (of_nat i) (fst s ! i)"
  shows "length (fst t) = length (fst s) \<and> (\<forall>i < length (fst s). hart_wf (of_nat i) (fst t ! i)) \<and> bus_layout (snd t) = bus_layout (snd s)"
  using assms
proof (induction rule: harts_run.induct)
  case (hart_step s cs b i r c' b')
  then have "hart_wf (of_nat i) (cs ! i) \<and> bus_layout b = bus_layout (snd s)" by auto
  then have "hart_wf (of_nat i) c' \<and> bus_layout b' = bus_layout (snd s)"
    using keeps_state [OF hart.step_keeps [of "of_nat i" "bus_layout (snd s)"], of "(cs ! i, b)" r "(c', b')"] hart_step.hyps(3) by simp
  then show ?case using hart_step by (auto simp: nth_list_update)
qed simp

lemma harts_run_trans: "harts_run t u \<Longrightarrow> harts_run s t \<Longrightarrow> harts_run s u"
  by (induction rule: harts_run.induct) (auto intro: hart_step)

lemma harts_run_Cons: "harts_run s t \<Longrightarrow> harts_run (c # fst s, snd s) (c # fst t, snd t)"
proof (induction rule: harts_run.induct)
  case (hart_step s cs b i r c' b')
  then have "harts_run (c # fst s, snd s) ((c # cs)[Suc i := c'], b')"
    by (intro harts_run.hart_step [where r = r]) auto
  then show ?case by simp
qed (rule harts_start)

lemma round_robin_runs: "round_robin cs b = (r, (cs', b')) \<Longrightarrow> harts_run (cs, b) (cs', b')"
proof (induction cs b arbitrary: r cs' b' rule: round_robin.induct)
  case (1 b)
  then show ?case by (auto intro: harts_start)
next
  case (2 c cs b)
  obtain r1 c1 b1 where s: "step (c, b) = (r1, (c1, b1))" by (metis surj_pair)
  have first: "harts_run (c # cs, b) (c1 # cs, b1)"
    using harts_run.hart_step [OF harts_start, of 0 "c # cs" b r1 c1 b1] s by simp
  show ?case
  proof (cases r1)
    case (Inl e)
    with 2 s first show ?thesis by simp
  next
    case (Inr u)
    obtain r2 cs2 b2 where rest: "round_robin cs b1 = (r2, (cs2, b2))" by (metis surj_pair)
    have "harts_run (cs, b1) (cs2, b2)" using 2(1) s Inr rest by simp
    from harts_run_Cons [OF this, of c1] have "harts_run (c1 # cs, b1) (c1 # cs2, b2)" by simp
    from harts_run_trans [OF this first] show ?thesis using 2(2) s Inr rest by simp
  qed
qed

lemma xv6_run_runs: "xv6_run cs b = Some y \<Longrightarrow> harts_run (cs, b) (snd y)"
proof (rule xv6_run.raw_induct [of "\<lambda>cs b y. harts_run (cs, b) (snd y)" cs b y])
  fix run cs b y
  assume IH: "\<And>cs b y. run cs b = Some y \<Longrightarrow> harts_run (cs, b) (snd y)"
    and body: "(case round_robin cs b of (Inl e, s) \<Rightarrow> Some (e, s) | (Inr _, s) \<Rightarrow> run (fst s) (snd s)) = Some y"
  obtain r cs1 b1 where rr: "round_robin cs b = (r, (cs1, b1))" by (metis surj_pair)
  note first = round_robin_runs [OF rr]
  show "harts_run (cs, b) (snd y)"
  proof (cases r)
    case (Inl e)
    with body rr first show ?thesis by auto
  next
    case (Inr u)
    with body rr have "run cs1 b1 = Some y" by simp
    from harts_run_trans [OF IH [OF this] first] show ?thesis .
  qed
qed

text \<open>
  C12: one round of the scheduler. A round that succeeds steps every hart exactly once, in order of
  its number, each on the memory and devices the one before left; a round that fails stops at the
  first hart whose step fails, with the harts after it untouched.
\<close>

theorem round_robin_in_order:
  assumes "round_robin cs b = (r, (cs', b'))"
  shows "\<exists>bs n. length bs = Suc n \<and> bs ! 0 = b \<and> bs ! n = b' \<and> n \<le> length cs \<and> length cs' = length cs
    \<and> (\<forall>i < n. snd (step (cs ! i, bs ! i)) = (cs' ! i, bs ! Suc i)) \<and> (\<forall>i. n \<le> i \<longrightarrow> i < length cs \<longrightarrow> cs' ! i = cs ! i)
    \<and> (case r of Inr _ \<Rightarrow> n = length cs \<and> (\<forall>i < n. \<exists>u. fst (step (cs ! i, bs ! i)) = Inr u)
       | Inl e \<Rightarrow> 0 < n \<and> fst (step (cs ! (n - 1), bs ! (n - 1))) = Inl e
           \<and> (\<forall>i < n - 1. \<exists>u. fst (step (cs ! i, bs ! i)) = Inr u))"
  using assms
proof (induction cs arbitrary: b r cs' b')
  case Nil
  then show ?case by (intro exI [of _ "[b]"] exI [of _ 0]) auto
next
  case (Cons c cs)
  obtain r1 c1 b1 where s: "step (c, b) = (r1, (c1, b1))" by (metis surj_pair)
  show ?case
  proof (cases r1)
    case (Inl e)
    with Cons.prems s have "r = Inl e" "cs' = c1 # cs" "b' = b1" by auto
    with s Inl show ?thesis by (intro exI [of _ "[b, b1]"] exI [of _ 1]) (auto simp: nth_Cons')
  next
    case (Inr u)
    obtain r2 cs2 b2 where rest: "round_robin cs b1 = (r2, (cs2, b2))" by (metis surj_pair)
    from Cons.prems s Inr rest have eqs: "r = r2" "cs' = c1 # cs2" "b' = b2" by auto
    from Cons.IH [OF rest] obtain bs n where IH: "length bs = Suc n" "bs ! 0 = b1" "bs ! n = b2" "n \<le> length cs" "length cs2 = length cs"
      "\<forall>i < n. snd (step (cs ! i, bs ! i)) = (cs2 ! i, bs ! Suc i)" "\<forall>i. n \<le> i \<longrightarrow> i < length cs \<longrightarrow> cs2 ! i = cs ! i"
      "case r2 of Inr _ \<Rightarrow> n = length cs \<and> (\<forall>i < n. \<exists>u. fst (step (cs ! i, bs ! i)) = Inr u)
       | Inl e \<Rightarrow> 0 < n \<and> fst (step (cs ! (n - 1), bs ! (n - 1))) = Inl e
           \<and> (\<forall>i < n - 1. \<exists>u. fst (step (cs ! i, bs ! i)) = Inr u)" by auto
    show ?thesis
      unfolding eqs
      using IH s Inr
      by (intro exI [of _ "b # bs"] exI [of _ "Suc n"]) (auto simp: nth_Cons' split: sum.split_asm)
  qed
qed

text \<open>
  C8: what a running machine keeps. However the steps of the harts of an xv6 machine interleave
  (the scheduler's rounds are one way) and whether they succeed or fault, every hart keeps zero in
  x0, a privilege mode of two bits and its own number in \<^verbatim>\<open>mhartid\<close>, and the address map, the
  devices behind it and the sizes of the memories are those the machine was built with.
\<close>

theorem xv6_hart_invariant:
  assumes "xv6_new_smp h program address out inp img ncpu = Inr e"
    and "harts_run (emu_cpus e, emu_bus e) (cs, b)"
  shows "length cs = unat ncpu
    \<and> (\<forall>i < unat ncpu. reg_array (regs (cs ! i)) 0 = 0 \<and> mode (cs ! i) < 4
         \<and> csr_get (csrs (cs ! i)) MHARTID = of_nat i \<and> hartid (cs ! i) = of_nat i)
    \<and> bus_layout b = bus_layout (emu_bus e)"
proof -
  have cpus: "emu_cpus e = map (\<lambda>i. xv6_cpu (of_nat i)) [0..<unat ncpu]"
    using assms(1) by (auto simp: xv6_new_smp_def Let_def error_def split: if_splits prod.splits sum.splits)
  have "hart_wf (of_nat i) (xv6_cpu (of_nat i))" for i
    by (simp add: hart_wf_def xv6_cpu_def cpu_new_csrs) (simp add: cpu_new_def)
  with harts_run_keeps [OF assms(2)] show ?thesis
    by (simp add: cpus hart_wf_def x0_zero_def)
qed

theorem xv6_hart_invariant_witness:
  "\<exists>e r cs b. xv6_new_smp empty_heap [0x13, 0, 0, 0] 0x80000000 None None None 3 = Inr e
     \<and> round_robin (emu_cpus e) (emu_bus e) = (r, (cs, b)) \<and> csr_get (csrs (cs ! 2)) MHARTID = 2
     \<and> bus_layout b = bus_layout (emu_bus e)"
proof -
  have "xv6_fits [0x13, 0, 0, 0] 0x80000000" by (simp add: xv6_fits_def)
  from xv6_new_smp_builds [OF this, of 3 empty_heap None None None]
  obtain e where e: "xv6_new_smp empty_heap [0x13, 0, 0, 0] 0x80000000 None None None 3 = Inr e" by auto
  obtain r cs b where rr: "round_robin (emu_cpus e) (emu_bus e) = (r, (cs, b))" by (metis surj_pair)
  from xv6_hart_invariant [OF e round_robin_runs [OF rr]]
  have "csr_get (csrs (cs ! 2)) MHARTID = of_nat 2" "bus_layout b = bus_layout (emu_bus e)"
    by (auto dest!: spec [of _ 2])
  with e rr show ?thesis by auto
qed

theorem round_robin_in_order_witness:
  "\<exists>r cs' b' bs n. round_robin [cpu_new 0, cpu_new 1] (memory_bus []) = (r, (cs', b')) \<and> length cs' = 2
     \<and> length bs = Suc n \<and> bs ! 0 = memory_bus [] \<and> bs ! n = b' \<and> n \<le> 2"
proof -
  obtain r cs' b' where rr: "round_robin [cpu_new 0, cpu_new 1] (memory_bus []) = (r, (cs', b'))" by (metis surj_pair)
  from round_robin_in_order [OF rr] rr show ?thesis by (auto simp: numeral_2_eq_2)
qed

section \<open>The plain machine does not panic\<close>

definition memory_ok :: "range \<Rightarrow> ram \<Rightarrow> bool" where
  "memory_ok rg r \<longleftrightarrow> unat (range_start rg) + unat (range_size rg) < 2 ^ 64
     \<and> unat (range_size rg) \<le> length (ram_data r)"

definition plain_bus :: "bus \<Rightarrow> bool" where
  "plain_bus b \<longleftrightarrow> memory_ok (ram_range b) (bus_ram b) \<and> memory_ok (stack_range b) (bus_stack b)
     \<and> bootloader_range b = range_none \<and> clint_range b = range_none \<and> uart_range b = range_none
     \<and> plic_range b = range_none \<and> virtio_range b = range_none"

definition plain_machine :: "machine \<Rightarrow> bool" where
  "plain_machine m \<longleftrightarrow> cpu_clint (fst m) = None \<and> cpu_uart (fst m) = None \<and> cpu_plic (fst m) = None \<and> plain_bus (snd m)"

lemma contains_none: "n \<noteq> 0 \<Longrightarrow> \<not> contains range_none a n"
  by (auto simp: contains_def range_none_def checked_add_def word_le_nat_alt unat_word_ariths split: option.splits if_splits)
    (metis add_is_0 unat_eq_zero)

lemma memory_ok_valid:
  assumes "memory_ok rg r" "contains rg a (ucast n)" "n \<in> {1, 2, 4, 8}"
  shows "ram_valid r (a - range_start rg) n"
proof -
  have "covers (range_start rg, range_size rg) a (ucast n)"
    using assms contains_covers [of rg a "ucast n"] by (auto simp: memory_ok_def entry_end_def)
  then have "unat (range_start rg) \<le> unat a" "unat a + unat n \<le> unat (range_start rg) + unat (range_size rg)"
    by (simp_all add: covers_def entry_end_def unat_ucast_size)
  then have "unat (a - range_start rg) + unat n \<le> unat (range_size rg)"
    by (simp add: unat_sub word_le_nat_alt)
  with assms show ?thesis by (simp add: memory_ok_def ram_valid_def)
qed

lemma plain_read:
  assumes "n \<in> {1, 2, 4, 8}"
  shows "keeps plain_bus (\<lambda>f. \<exists>e. f = Emu e) (bus_read a n)"
proof (rule keepsI)
  have nz: "(ucast n :: u64) \<noteq> 0" using assms by auto
  note N = contains_none [OF nz]
  fix b assume b: "plain_bus b"
  show "plain_bus (snd (bus_read a n b))"
    using b by (simp add: bus_read_def read_mmio_def plain_bus_def N on_field_eqs pure_op_state [OF ram_read_pure])
  show "fst (bus_read a n b) = Inl f \<Longrightarrow> \<exists>e. f = Emu e" for f
    using b assms memory_ok_valid [of "ram_range b" "bus_ram b" a n] memory_ok_valid [of "stack_range b" "bus_stack b" a n]
    by (auto simp: bus_read_def read_mmio_def plain_bus_def N on_field_eqs ram_read_valid error_def split: if_splits)
qed

lemma plain_write:
  assumes "n \<in> {1, 2, 4, 8}"
  shows "keeps plain_bus (\<lambda>f. \<exists>e. f = Emu e) (bus_write a n v)"
proof (rule keepsI)
  have nz: "(ucast n :: u64) \<noteq> 0" using assms by auto
  note N = contains_none [OF nz]
  fix b assume b: "plain_bus b"
  show "plain_bus (snd (bus_write a n v b))"
    using b by (simp add: bus_write_def bus_write_with_def write_mmio_with_def plain_bus_def memory_ok_def N on_field_eqs)
  show "fst (bus_write a n v b) = Inl f \<Longrightarrow> \<exists>e. f = Emu e" for f
    using b assms memory_ok_valid [of "ram_range b" "bus_ram b" a n] memory_ok_valid [of "stack_range b" "bus_stack b" a n]
    by (auto simp: bus_write_def bus_write_with_def write_mmio_with_def plain_bus_def N on_field_eqs ram_write_valid error_def split: if_splits)
qed

interpretation plain: hart_contract plain_machine "\<lambda>f. \<exists>e. f = Emu e"
proof unfold_locales
  fix a v and n :: u8 assume n: "n \<in> {1, 2, 4, 8}"
  show "keeps plain_machine (\<lambda>f. \<exists>e. f = Emu e) (on_snd (bus_read a n))"
    "keeps plain_machine (\<lambda>f. \<exists>e. f = Emu e) (on_snd (bus_write a n v))"
    using keeps_on_snd [OF plain_read [OF n], of "\<lambda>c. cpu_clint c = None \<and> cpu_uart c = None \<and> cpu_plic c = None" a]
      keeps_on_snd [OF plain_write [OF n], of "\<lambda>c. cpu_clint c = None \<and> cpu_uart c = None \<and> cpu_plic c = None" a v]
    by (simp_all add: plain_machine_def [abs_def] conj_assoc)
next
  show "keeps plain_machine (\<lambda>f. \<exists>e. f = Emu e) tick_clint" "keeps plain_machine (\<lambda>f. \<exists>e. f = Emu e) poll_uart"
    by (auto intro!: keeps_machineI simp: plain_machine_def tick_clint_def poll_uart_def)
next
  fix c b f assume "plain_machine (c, b)" "sampled_mip (heap b) c = Inl f"
  then show "\<exists>e. f = Emu e" by (simp add: plain_machine_def sampled_mip_def)
qed (simp_all add: plain_machine_def)

section \<open>Steps with nothing to poll\<close>

lemma cset_same: "x AND 0xfff = x \<Longrightarrow> cset x (csr_get (csrs c) x) c = c"
  by (simp add: cset_def csr_insert_def csr_get_def)

text \<open>A hart with nothing to poll, nothing pending and paging off.\<close>

definition quiet :: "cpu \<Rightarrow> bool" where
  "quiet c \<longleftrightarrow> cpu_clint c = None \<and> cpu_uart c = None \<and> cpu_plic c = None
     \<and> csr_get (csrs c) MIP = 0 \<and> drop_bit 60 (csr_get (csrs c) SATP) = MODE_BARE \<and> x0_zero (regs c)"

lemma quiet_fetch:
  assumes "quiet c"
  shows "fetch (c, b) = and_then (on_snd (bus_read (pc c) 4))
    (\<lambda>v. ok (if (ucast v :: u32) AND 0b11 = 0b11 then Full (instruction_new (ucast v))
              else Compressed (cinstruction_new (ucast (ucast v :: u32))))) (c, b)"
proof -
  have "sampled_mip (heap b) c = Inr (csr_get (csrs c) MIP)" using assms by (simp add: quiet_def sampled_mip_def)
  then have "check_interrupt (c, b) = (Inr False, (c, b))"
    using assms cset_same [of MIP c] by (simp add: check_interrupt_def quiet_def)
  then show ?thesis
    using assms
    by (simp add: fetch_def quiet_def tick_clint_def poll_uart_def translate_def and_then_def gets_def Let_def)
qed

lemma ucast_up_down: "(ucast (ucast w :: u64) :: u32) = w"
  by (rule bit_word_eqI) (auto simp: bit_simps)

lemma quiet_step:
  assumes "quiet c" "bus_read (pc c) 4 b = (Inr (ucast w), b)" "w AND 0b11 = 0b11"
  shows "step (c, b) = cpu_execute (instruction_new w) (c, b)"
  using quiet_fetch [OF assms(1), of b] assms(2,3)
  by (simp add: step_def and_then_def on_snd_def ok_def ucast_up_down)

lemma quiet_step_fault:
  assumes "quiet c" "bus_read (pc c) 4 b = (Inl f, b)"
  shows "step (c, b) = (Inl f, (c, b))"
  using quiet_fetch [OF assms(1), of b] assms(2) by (simp add: step_def and_then_def on_snd_def)

lemma quiet_execute:
  assumes "quiet c" "bus_read (pc c) 4 b = (Inr (ucast w), b)" "w AND 0b11 = 0b11"
    and "execute_at (pc c) (pc c + 4) (instruction_new w) (c, b) = (Inr p, (c', b'))"
  shows "step (c, b) = (Inr (), (c'\<lparr>pc := p\<rparr>, b'))"
  unfolding quiet_step [OF assms(1-3)] using assms(4)
  by (simp add: cpu_execute_def execute_def and_then_def gets_def on_cpu_def)

context hart_contract
begin

lemma run_keeps:
  assumes "emulator_run c b = Some y" "P (c, b)"
  shows "P (snd y) \<and> E (fst y)"
proof -
  have "P (c, b) \<longrightarrow> P (snd y) \<and> E (fst y)"
  proof (rule emulator_run.raw_induct [of "\<lambda>c b y. P (c, b) \<longrightarrow> P (snd y) \<and> E (fst y)" c b y, OF _ assms(1)])
    fix run c b y
    assume IH: "\<And>c b y. run c b = Some y \<Longrightarrow> P (c, b) \<longrightarrow> P (snd y) \<and> E (fst y)"
      and body: "(case step (c, b) of (Inl e, m) \<Rightarrow> Some (e, m) | (Inr _, m) \<Rightarrow> run (fst m) (snd m)) = Some y"
    obtain r m where s: "step (c, b) = (r, m)" by (metis surj_pair)
    have "P (c, b) \<Longrightarrow> P m" "P (c, b) \<Longrightarrow> r = Inl e \<Longrightarrow> E e" for e
      using keeps_state [OF step_keeps _ s] keeps_fault [OF step_keeps, of "(c, b)" _ m] s by auto
    then show "P (c, b) \<longrightarrow> P (snd y) \<and> E (fst y)"
      using body s IH [of "fst m" "snd m" y] by (auto split: sum.splits)
  qed
  with assms(2) show ?thesis by blast
qed

end

text \<open>What \<open>Emulator::new\<close> builds.\<close>

definition plain_fits :: "u8 list \<Rightarrow> u64 \<Rightarrow> bool" where
  "plain_fits program address \<longleftrightarrow> 0 < length program
     \<and> unat address + length program + 0xfff + unat STACK_SIZE < 2 ^ 64"

definition plain_built :: "heap \<Rightarrow> u8 list \<Rightarrow> u64 \<Rightarrow> bus" where
  "plain_built h program address =
     (let n = of_nat (length program); s = address + page_align n in
      (bus_new h)\<lparr>ranges := \<lparr>starts = [address, s], sizes = [n, STACK_SIZE]\<rparr>,
        bus_ram := \<lparr>ram_data = program\<rparr>, ram_range := \<lparr>range_start = address, range_size = n\<rparr>,
        bus_stack := ram_new STACK_SIZE, stack_range := \<lparr>range_start = s, range_size = STACK_SIZE\<rparr>\<rparr>)"

lemma emulator_new_builds:
  assumes "plain_fits program address"
  shows "emulator_new h program address =
    Inr \<lparr>emu_bus = plain_built h program address, emu_cpus = [(cpu_new 0)\<lparr>pc := address\<rparr>]\<rparr>"
proof -
  define n where "n = (of_nat (length program) :: u64)"
  define s where "s = address + page_align n"
  note fits = assms [unfolded plain_fits_def]
  have n: "unat n = length program" using fits by (simp add: n_def unat_of_nat)
  have sz: "length program \<le> unat (page_align n)" "unat (page_align n) \<le> length program + 0xfff"
    unfolding n_def using fits by (intro page_align_bounds; simp)+
  have e: "unat s = unat address + unat (page_align n)" unfolding s_def using fits sz(2) by (intro unat_add_no_wrap) simp
  have nz: "n \<noteq> 0" using n fits by (metis less_numeral_extra(3) unat_0)
  have add: "unat (address + n) = unat address + length program" using fits n by (subst unat_add_no_wrap) simp_all
  have r1: "reserve address n b = (Inr \<lparr>range_start = address, range_size = n\<rparr>,
      b\<lparr>ranges := \<lparr>starts = [address], sizes = [n]\<rparr>\<rparr>)" if "ranges b = \<lparr>starts = [], sizes = []\<rparr>" for b
    using reserve_end [of n address "[]" "[]" b] that nz n fits by simp
  have r2: "reserve s STACK_SIZE b = (Inr \<lparr>range_start = s, range_size = STACK_SIZE\<rparr>,
      b\<lparr>ranges := \<lparr>starts = [address, s], sizes = [n, STACK_SIZE]\<rparr>\<rparr>)"
    if "ranges b = \<lparr>starts = [address], sizes = [n]\<rparr>" for b
    using reserve_end [of STACK_SIZE s "[address]" "[n]" b] that e sz fits add
    by (simp add: word_less_nat_alt word_le_nat_alt)
  have content: "ram_with_content (of_nat (length program)) program = \<lparr>ram_data = program\<rparr>"
    using n by (simp add: ram_with_content_def n_def)
  have len: "ram_len \<lparr>ram_data = program\<rparr> = n" by (simp add: ram_len_def n_def)
  show ?thesis
    unfolding emulator_new_def Let_def content len set_ram_def set_stack_def
    by (simp add: add.commute [of "page_align n"] s_def [symmetric] ram_len_new and_then_def modify_def r1 r2 len plain_built_def Let_def
        n_def [symmetric] bus_new_def range_manager_new_def)
qed

lemma reserve_Inr:
  assumes "reserve s z b = (Inr rg, b')"
  shows "rg = \<lparr>range_start = s, range_size = z\<rparr>" "unat s + unat z < 2 ^ 64" "\<exists>m. b' = b\<lparr>ranges := m\<rparr>"
  using assms by (auto simp: reserve_def add_range_def error_def checked_add_eq_None not_le Let_def
      split: if_splits prod.splits sum.splits)

lemma memory_ok_len: "unat s + unat (ram_len r) < 2 ^ 64 \<Longrightarrow> memory_ok \<lparr>range_start = s, range_size = ram_len r\<rparr> r"
  by (simp add: memory_ok_def ram_len_def unat_of_nat)

lemma emulator_new_plain:
  assumes "emulator_new h program address = Inr e"
  shows "\<exists>c. emu_cpus e = [c] \<and> c = (cpu_new 0)\<lparr>pc := address\<rparr> \<and> plain_machine (c, emu_bus e)"
proof -
  let ?r = "ram_with_content (of_nat (length program)) program"
  let ?s = "page_align (ram_len ?r) + address"
  from assms obtain b where b: "and_then (set_ram ?r address) (\<lambda>_. set_stack (ram_new STACK_SIZE) ?s) (bus_new h) = (Inr (), b)"
    and e: "e = \<lparr>emu_bus = b, emu_cpus = [(cpu_new 0)\<lparr>pc := address\<rparr>]\<rparr>"
    by (auto simp: emulator_new_def Let_def split: prod.splits sum.splits)
  from b obtain rg b1 rg2 b2 where r1: "reserve address (ram_len ?r) (bus_new h) = (Inr rg, b1)"
    and r2: "reserve ?s (ram_len (ram_new STACK_SIZE)) (b1\<lparr>ram_range := rg, bus_ram := ?r\<rparr>) = (Inr rg2, b2)"
    and b': "b = b2\<lparr>stack_range := rg2, bus_stack := ram_new STACK_SIZE\<rparr>"
    by (auto simp: set_ram_def set_stack_def and_then_def modify_def split: prod.splits sum.splits)
  note R = reserve_Inr [OF r1] reserve_Inr [OF r2]
  have "plain_bus b"
    using R memory_ok_len [OF R(2)] memory_ok_len [OF R(5)] by (auto simp: plain_bus_def b' bus_new_def)
  then show ?thesis by (simp add: e plain_machine_def cpu_new_def)
qed

text \<open>
  C10: the plain machine never panics. A run of a program on the plain machine that ends, ends with
  an error value and not with a panic: no index out of bounds, no slice out of range, no unwrap of a
  missing device, whatever the program does.
\<close>

theorem emulator_never_panics:
  assumes "emulator_new h program address = Inr e"
    and "emulator_run (hd (emu_cpus e)) (emu_bus e) = Some (f, m)"
  shows "\<exists>err. f = Emu err"
  using emulator_new_plain [OF assms(1)] plain.run_keeps [OF assms(2)] by auto

theorem emulator_never_panics_witness:
  "\<exists>e f m. emulator_new empty_heap [0] 0x1000 = Inr e \<and> emulator_run (hd (emu_cpus e)) (emu_bus e) = Some (f, m)
     \<and> (\<exists>err. f = Emu err)"
proof -
  let ?c = "(cpu_new 0)\<lparr>pc := 0x1000\<rparr>" and ?b = "plain_built empty_heap [0] 0x1000"
  have new: "emulator_new empty_heap [0] 0x1000 = Inr \<lparr>emu_bus = ?b, emu_cpus = [?c]\<rparr>"
    by (rule emulator_new_builds) (simp add: plain_fits_def)
  have "bus_read 0x1000 4 ?b = (Inl (Emu No_device_mapped), ?b)"
    by (simp add: bus_read_def read_mmio_def plain_built_def Let_def bus_new_def contains_none error_def
        contains_covers entry_end_def covers_def page_align_def)
  moreover have "quiet ?c" by (simp add: quiet_def cpu_new_csrs) (simp add: cpu_new_def)
  ultimately have "step (?c, ?b) = (Inl (Emu No_device_mapped), (?c, ?b))"
    using quiet_step_fault [of ?c ?b] by simp
  then have "emulator_run ?c ?b = Some (Emu No_device_mapped, (?c, ?b))"
    by (subst emulator_run.simps) simp
  with emulator_never_panics [OF new] new show ?thesis by auto
qed

end
