(* ===== verification/Program_Runs.thy ===== *)
theory Program_Runs
  imports Machine_Invariants
begin

text \<open>
  Programs run on the model: the demo program of \<^verbatim>\<open>asm.rs\<close> on the plain machine, to its end.
\<close>

section \<open>Programs as words\<close>

text \<open>A program laid out as words.\<close>

definition code_bytes :: "u32 list \<Rightarrow> u8 list" where
  "code_bytes ws = concat (map (\<lambda>w. to_le_bytes 4 (ucast w)) ws)"

lemma length_code_bytes: "length (code_bytes ws) = 4 * length ws"
  by (induction ws) (simp_all add: code_bytes_def del: to_le_bytes_numeral)

lemma code_word: "k < length ws \<Longrightarrow> take 4 (drop (4 * k) (code_bytes ws)) = to_le_bytes 4 (ucast (ws ! k))"
proof (induction ws arbitrary: k)
  case (Cons w ws)
  show ?case
  proof (cases k)
    case 0
    then show ?thesis by (simp add: code_bytes_def del: to_le_bytes_numeral)
  next
    case (Suc j)
    then have "drop (4 * k) (code_bytes (w # ws)) = drop (4 * j) (code_bytes ws)"
      by (simp add: code_bytes_def del: to_le_bytes_numeral)
    with Cons Suc show ?thesis by simp
  qed
qed simp


section \<open>The stack demo\<close>

definition demo_words :: "u32 list" where
  "demo_words =
     [encode_u 0x3000 SP OPCODE_LUI,
      encode_i 42 ZERO FUNCT3_ADDI T0 OPCODE_OP_IMM,
      encode_s 0 SP T0 FUNCT3_SW OPCODE_STORE,
      encode_i 0 SP FUNCT3_LW T1 OPCODE_LOAD,
      encode_i 1 T1 FUNCT3_ADDI T1 OPCODE_OP_IMM,
      encode_s 4 SP T1 FUNCT3_SW OPCODE_STORE,
      encode_i 4 SP FUNCT3_LW A0 OPCODE_LOAD,
      encode_i 0 RA 0x0 ZERO OPCODE_JALR]"

lemma stack_demo_code: "stack_demo_program = code_bytes demo_words"
  by (simp only: stack_demo_program_def code_bytes_def demo_words_def)

definition demo_bus :: "heap \<Rightarrow> ram \<Rightarrow> bus" where
  "demo_bus h s = (plain_built h stack_demo_program 0x1000)\<lparr>bus_stack := s\<rparr>"

lemma demo_ranges:
  "ram_range (demo_bus h s) = \<lparr>range_start = 0x1000, range_size = 32\<rparr>" "bus_ram (demo_bus h s) = \<lparr>ram_data = code_bytes demo_words\<rparr>"
  "stack_range (demo_bus h s) = \<lparr>range_start = 0x2000, range_size = STACK_SIZE\<rparr>" "bus_stack (demo_bus h s) = s"
  "(demo_bus h s)\<lparr>bus_stack := t\<rparr> = demo_bus h t"
  by (simp_all add: demo_bus_def plain_built_def Let_def stack_demo_code length_code_bytes demo_words_def page_align_def)

lemma demo_fetch:
  assumes "k < 8"
  shows "bus_read (0x1000 + 4 * of_nat k) 4 (demo_bus h s) = (Inr (ucast (demo_words ! k)), demo_bus h s)"
proof -
  have u: "unat (4 * of_nat k :: u64) = 4 * k" using assms by (simp add: unat_word_ariths unat_of_nat)
  have "unat (0x1000 + 4 * of_nat k :: u64) = 0x1000 + 4 * k" using u assms by (subst unat_add_no_wrap) simp_all
  then have c: "contains (ram_range (demo_bus h s)) (0x1000 + 4 * of_nat k) 4"
    using assms by (simp add: demo_ranges contains_covers entry_end_def covers_def)
  have "take_bit 32 (ucast w :: u64) = ucast w" for w :: u32
    by (rule bit_word_eqI) (auto simp: bit_simps dest: bit_imp_le_length)
  then have "ram_read (4 * of_nat k) 4 \<lparr>ram_data = code_bytes demo_words\<rparr> = (Inr (ucast (demo_words ! k)), \<lparr>ram_data = code_bytes demo_words\<rparr>)"
    using assms code_word [of k demo_words]
    by (simp add: ram_read_def slice_def u length_code_bytes demo_words_def del: to_le_bytes_numeral)
  then show ?thesis
    using c by (simp add: bus_read_def demo_ranges on_field_eqs)
qed

lemma demo_stack_access:
  assumes "quiet c" "length (ram_data s) = 0x8000000" "unat x < 0x7000000"
  shows "cpu_write (0x2000 + x) 4 v (c, demo_bus h s) = (Inr (), (c, demo_bus h (snd (ram_write x 4 v s))))"
    "cpu_read (0x2000 + x) 4 (c, demo_bus h s) = (fst (ram_read x 4 s), (c, demo_bus h s))"
proof -
  have u: "unat (0x2000 + x) = 0x2000 + unat x" using assms(3) by (subst unat_add_no_wrap) simp_all
  have nr: "\<not> contains (ram_range (demo_bus h s)) (0x2000 + x) 4"
    by (simp add: demo_ranges contains_covers entry_end_def covers_def u)
  have st: "contains (stack_range (demo_bus h s)) (0x2000 + x) 4"
    using assms(3) by (simp add: demo_ranges contains_covers entry_end_def covers_def u)
  have v: "ram_valid s x 4" using assms(2,3) by (simp add: ram_valid_def)
  have tr: "translate a acc (c, b) = (Inr a, (c, b))" for a acc b
    using assms(1) by (simp add: translate_def quiet_def)
  show "cpu_write (0x2000 + x) 4 v (c, demo_bus h s) = (Inr (), (c, demo_bus h (snd (ram_write x 4 v s))))"
    using nr st ram_mem.write_returns [OF v, of v]
    by (simp add: cpu_write_def and_then_def tr on_snd_def bus_write_def bus_write_with_def demo_ranges on_field_eqs)
  show "cpu_read (0x2000 + x) 4 (c, demo_bus h s) = (fst (ram_read x 4 s), (c, demo_bus h s))"
    using nr st pure_op_state [OF ram_read_pure, of x 4 s]
    by (simp add: cpu_read_def and_then_def tr on_snd_def bus_read_def demo_ranges on_field_eqs)
qed


definition demo_hart :: "(nat \<Rightarrow> u64) \<Rightarrow> u64 \<Rightarrow> cpu" where
  "demo_hart f p = (cpu_new 0)\<lparr>regs := \<lparr>reg_array = f\<rparr>, pc := p\<rparr>"

lemma demo_hart_simps:
  "pc (demo_hart f p) = p" "regs (demo_hart f p) = \<lparr>reg_array = f\<rparr>" "(demo_hart f p)\<lparr>pc := q\<rparr> = demo_hart f q"
  "(demo_hart f p)\<lparr>regs := \<lparr>reg_array = g\<rparr>\<rparr> = demo_hart g p"
  by (simp_all add: demo_hart_def)

lemma demo_quiet: "f 0 = 0 \<Longrightarrow> quiet (demo_hart f p)"
  by (simp add: quiet_def demo_hart_def x0_zero_def cpu_new_csrs) (simp add: cpu_new_def)

lemma demo_regs:
  "i < 32 \<Longrightarrow> get_reg i (demo_hart f p, b) = (Inr (f i), (demo_hart f p, b))"
  "i < 32 \<Longrightarrow> set_reg i v (demo_hart f p, b) = (Inr (), (demo_hart (if i = 0 then f else f(i := v)) p, b))"
  by (simp_all add: get_reg_in_range set_reg_in_range demo_hart_simps)

lemma demo_step:
  assumes "k < 8" "f 0 = 0" "demo_words ! k AND 0b11 = 0b11" "p = 0x1000 + 4 * of_nat k"
    and "execute_at p (p + 4) (instruction_new (demo_words ! k)) (demo_hart f p, demo_bus h s) = (Inr q, (demo_hart g p, demo_bus h t))"
  shows "step (demo_hart f p, demo_bus h s) = (Inr (), (demo_hart g q, demo_bus h t))"
  using quiet_execute [OF demo_quiet [of f p, OF assms(2)], of "demo_bus h s" "demo_words ! k" q "demo_hart g p" "demo_bus h t"]
    demo_fetch [OF assms(1), of h s] assms by (simp add: demo_hart_simps)

lemma demo_low_bits: "k < 8 \<Longrightarrow> demo_words ! k AND 0b11 = 0b11"
proof -
  have "list_all (\<lambda>w. w AND 0b11 = 0b11) demo_words" by code_simp
  then show "k < 8 \<Longrightarrow> demo_words ! k AND 0b11 = 0b11" by (simp add: list_all_length demo_words_def)
qed

lemma demo_small_immediates: "sext 42 12 = 42" "sext 0 12 = 0" "sext 4 12 = 4" "sext 1 12 = 1" "c_sext 42 32 = 42" "c_sext 43 32 = 43"
  "scast ((0x3000 :: u32) AND 0xfffff000) = (0x3000 :: u64)"
  by code_simp+

lemma emulator_run_step: "step (c, b) = (Inr u, (c', b')) \<Longrightarrow> emulator_run c b = emulator_run c' b'"
  by (subst emulator_run.simps) simp

lemma emulator_run_fault: "step (c, b) = (Inl e, m) \<Longrightarrow> emulator_run c b = Some (e, m)"
  by (subst emulator_run.simps) simp

lemmas demo_exec = demo_words_def demo_regs and_then_def ok_def demo_small_immediates execute_at_lui execute_at_addi
  execute_at_load execute_at_store

text \<open>The stack region as the program leaves it after its first and its second store.\<close>

definition demo_stack0 :: ram where "demo_stack0 = ram_new STACK_SIZE"
definition demo_stack1 :: ram where "demo_stack1 = snd (ram_write 0x1000 4 42 demo_stack0)"
definition demo_stack2 :: ram where "demo_stack2 = snd (ram_write 0x1004 4 43 demo_stack1)"

lemma demo_stack_length [simp]:
  "length (ram_data demo_stack0) = 0x8000000" "length (ram_data demo_stack1) = 0x8000000"
  "length (ram_data demo_stack2) = 0x8000000"
  by (simp_all add: demo_stack2_def demo_stack1_def demo_stack0_def ram_new_def)

lemma demo_stack_contents:
  "fst (ram_read 0x1000 4 demo_stack1) = Inr 42" "fst (ram_read 0x1004 4 demo_stack2) = Inr 43"
  "fst (ram_read 0x1000 4 demo_stack2) = Inr 42"
proof -
  have v: "ram_valid demo_stack0 0x1000 4" "ram_valid demo_stack0 0x1004 4" "ram_valid demo_stack1 0x1004 4"
    by (simp_all add: ram_valid_def)
  show "fst (ram_read 0x1000 4 demo_stack1) = Inr 42"
    unfolding demo_stack1_def using ram_mem.read_same [OF v(1), of 42] by simp
  show "fst (ram_read 0x1004 4 demo_stack2) = Inr 43"
    unfolding demo_stack2_def using ram_mem.read_same [OF v(3), of 43] by simp
  show "fst (ram_read 0x1000 4 demo_stack2) = Inr 42"
    unfolding demo_stack2_def demo_stack1_def using ram_mem.write_write_read [OF v(1,2), of 43 42] by simp
qed

lemma demo_memory:
  assumes "f 0 = 0" "length (ram_data u) = 0x8000000"
  shows "cpu_write 0x3000 4 v (demo_hart f p, demo_bus h u) = (Inr (), (demo_hart f p, demo_bus h (snd (ram_write 0x1000 4 v u))))"
    "cpu_write 0x3004 4 v (demo_hart f p, demo_bus h u) = (Inr (), (demo_hart f p, demo_bus h (snd (ram_write 0x1004 4 v u))))"
    "cpu_read 0x3000 4 (demo_hart f p, demo_bus h u) = (fst (ram_read 0x1000 4 u), (demo_hart f p, demo_bus h u))"
    "cpu_read 0x3004 4 (demo_hart f p, demo_bus h u) = (fst (ram_read 0x1004 4 u), (demo_hart f p, demo_bus h u))"
  using demo_stack_access [OF demo_quiet [of f p, OF assms(1)] assms(2), of "0x1000"]
    demo_stack_access [OF demo_quiet [of f p, OF assms(1)] assms(2), of "0x1004"] by simp_all

lemma demo_run_stores:
  assumes "f 0 = 0"
  shows "emulator_run (demo_hart f 0x1000) (demo_bus h demo_stack0)
    = emulator_run (demo_hart (f(2 := 0x3000, 5 := 42, 6 := 42)) 0x1010) (demo_bus h demo_stack1)"
proof -
  have "step (demo_hart f 0x1000, demo_bus h demo_stack0)
      = (Inr (), (demo_hart (f(2 := 0x3000)) 0x1004, demo_bus h demo_stack0))"
    using demo_step [of 0 f "0x1000" h demo_stack0 "0x1004" "f(2 := 0x3000)" demo_stack0] demo_low_bits [of 0] assms
    by (simp add: demo_exec)
  moreover have "step (demo_hart (f(2 := 0x3000)) 0x1004, demo_bus h demo_stack0)
      = (Inr (), (demo_hart (f(2 := 0x3000, 5 := 42)) 0x1008, demo_bus h demo_stack0))"
    using demo_step [of 1 "f(2 := 0x3000)" "0x1004" h demo_stack0 "0x1008" "f(2 := 0x3000, 5 := 42)" demo_stack0]
      demo_low_bits [of 1] assms by (simp add: demo_exec)
  moreover have "step (demo_hart (f(2 := 0x3000, 5 := 42)) 0x1008, demo_bus h demo_stack0)
      = (Inr (), (demo_hart (f(2 := 0x3000, 5 := 42)) 0x100c, demo_bus h demo_stack1))"
    using demo_step [of 2 "f(2 := 0x3000, 5 := 42)" "0x1008" h demo_stack0 "0x100c" "f(2 := 0x3000, 5 := 42)" demo_stack1]
      demo_low_bits [of 2] assms by (simp add: demo_exec demo_memory demo_stack1_def)
  moreover have "step (demo_hart (f(2 := 0x3000, 5 := 42)) 0x100c, demo_bus h demo_stack1)
      = (Inr (), (demo_hart (f(2 := 0x3000, 5 := 42, 6 := 42)) 0x1010, demo_bus h demo_stack1))"
    using demo_step [of 3 "f(2 := 0x3000, 5 := 42)" "0x100c" h demo_stack1 "0x1010" "f(2 := 0x3000, 5 := 42, 6 := 42)" demo_stack1]
      demo_low_bits [of 3] assms by (simp add: demo_exec demo_memory demo_stack_contents)
  ultimately show ?thesis using emulator_run_step by metis
qed

lemma demo_run_sums:
  assumes "f 0 = 0" "f 1 = 0" "f 2 = 0x3000" "f 6 = 42"
  shows "emulator_run (demo_hart f 0x1010) (demo_bus h demo_stack1)
    = emulator_run (demo_hart (f(6 := 43, 10 := 43)) 0) (demo_bus h demo_stack2)"
proof -
  have "step (demo_hart f 0x1010, demo_bus h demo_stack1)
      = (Inr (), (demo_hart (f(6 := 43)) 0x1014, demo_bus h demo_stack1))"
    using demo_step [of 4 f "0x1010" h demo_stack1 "0x1014" "f(6 := 43)" demo_stack1] demo_low_bits [of 4] assms
    by (simp add: demo_exec)
  moreover have "step (demo_hart (f(6 := 43)) 0x1014, demo_bus h demo_stack1)
      = (Inr (), (demo_hart (f(6 := 43)) 0x1018, demo_bus h demo_stack2))"
    using demo_step [of 5 "f(6 := 43)" "0x1014" h demo_stack1 "0x1018" "f(6 := 43)" demo_stack2] demo_low_bits [of 5] assms
    by (simp add: demo_exec demo_memory demo_stack2_def)
  moreover have "step (demo_hart (f(6 := 43)) 0x1018, demo_bus h demo_stack2)
      = (Inr (), (demo_hart (f(6 := 43, 10 := 43)) 0x101c, demo_bus h demo_stack2))"
    using demo_step [of 6 "f(6 := 43)" "0x1018" h demo_stack2 "0x101c" "f(6 := 43, 10 := 43)" demo_stack2]
      demo_low_bits [of 6] assms by (simp add: demo_exec demo_memory demo_stack_contents)
  moreover have "step (demo_hart (f(6 := 43, 10 := 43)) 0x101c, demo_bus h demo_stack2)
      = (Inr (), (demo_hart (f(6 := 43, 10 := 43)) 0, demo_bus h demo_stack2))"
    using demo_step [of 7 "f(6 := 43, 10 := 43)" "0x101c" h demo_stack2 0 "f(6 := 43, 10 := 43)" demo_stack2]
      demo_low_bits [of 7] assms by (simp add: demo_exec execute_at_jalr demo_hart_simps)
  ultimately show ?thesis using emulator_run_step by metis
qed

lemma demo_run_returns:
  assumes "f 0 = 0"
  shows "emulator_run (demo_hart f 0) (demo_bus h s) = Some (Emu No_device_mapped, (demo_hart f 0, demo_bus h s))"
proof -
  have "bus_read 0 4 (demo_bus h s) = (Inl (Emu No_device_mapped), demo_bus h s)"
    by (simp add: bus_read_def read_mmio_def demo_ranges contains_covers entry_end_def covers_def)
      (simp add: demo_bus_def plain_built_def Let_def bus_new_def contains_none error_def)
  then show ?thesis
    using quiet_step_fault [OF demo_quiet [of f 0, OF assms], of "demo_bus h s" "Emu No_device_mapped"]
    by (intro emulator_run_fault) (simp add: demo_hart_simps)
qed

lemma demo_stack_read:
  assumes "length (ram_data u) = 0x8000000"
  shows "bus_read 0x3000 4 (demo_bus h u) = (fst (ram_read 0x1000 4 u), demo_bus h u)"
    "bus_read 0x3004 4 (demo_bus h u) = (fst (ram_read 0x1004 4 u), demo_bus h u)"
proof -
  have "cpu_read a 4 (demo_hart (\<lambda>_. 0) 0, demo_bus h u)
      = (let (r, b) = bus_read a 4 (demo_bus h u) in (r, (demo_hart (\<lambda>_. 0) 0, b)))" for a
    using demo_quiet [of "\<lambda>_. 0" 0] by (simp add: cpu_read_def and_then_def on_snd_def translate_def quiet_def split_beta)
  from this [of "0x3000"] this [of "0x3004"] show "bus_read 0x3000 4 (demo_bus h u) = (fst (ram_read 0x1000 4 u), demo_bus h u)"
    "bus_read 0x3004 4 (demo_bus h u) = (fst (ram_read 0x1004 4 u), demo_bus h u)"
    using demo_memory(3,4) [of "\<lambda>_. 0", OF refl assms] by (simp_all add: split_beta prod_eq_iff)
qed

lemma stack_demo_start:
  "emulator_new h stack_demo_program 0x1000
     = Inr \<lparr>emu_bus = demo_bus h demo_stack0, emu_cpus = [demo_hart (\<lambda>_. 0) 0x1000]\<rparr>"
proof -
  have "(cpu_new 0)\<lparr>pc := 0x1000\<rparr> = demo_hart (\<lambda>_. 0) 0x1000" "plain_built h stack_demo_program 0x1000 = demo_bus h demo_stack0"
    by (simp_all add: demo_hart_def cpu_new_def registers_new_def demo_bus_def plain_built_def demo_stack0_def Let_def)
  moreover have "plain_fits stack_demo_program 0x1000"
    by (simp add: plain_fits_def stack_demo_code length_code_bytes demo_words_def)
  ultimately show ?thesis using emulator_new_builds by simp
qed

lemma stack_demo_outcome:
  "\<exists>f. emulator_run (demo_hart (\<lambda>_. 0) 0x1000) (demo_bus h demo_stack0)
       = Some (Emu No_device_mapped, (demo_hart f 0, demo_bus h demo_stack2)) \<and> f 10 = 43"
  using demo_run_stores [of "\<lambda>_. 0" h]
    demo_run_sums [of "(\<lambda>_. 0)(2 := 0x3000, 5 := 42, 6 := 42)" h]
    demo_run_returns [of "(\<lambda>_. 0)(2 := 0x3000, 5 := 42, 6 := 43, 10 := 43)" h demo_stack2]
  by (intro exI [of _ "(\<lambda>_. 0)(2 := 0x3000, 5 := 42, 6 := 43, 10 := 43)"]) (simp add: fun_upd_twist)

end
