(* ===== verification/Command_Line.thy ===== *)
theory Command_Line
  imports Program_Runs "HOL-Library.Sublist"
begin

text \<open>
  \<^verbatim>\<open>main.rs\<close>: the command line around the machines. File contents are a parameter \<open>files\<close> (a path
  that cannot be read is \<open>None\<close>); what is printed is a list of lines with the values they show; a
  command ends by returning, with an exit code or with a panic, and \<open>None\<close> is one that runs
  forever. Elapsed times are left out. The bytes behind standard output are the UART's output.
\<close>

section \<open>What is printed\<close>

datatype line =
    Stopped fault
  | A0_line u64 u64 bool
  | Stack_words u64 u64
  | Reg_line string nat u64
  | Pc_line u64
  | Limit_reached u64
  | Stopped_after u64 fault
  | Hart_line u64
  | Shell_reached u64 u64
  | Stopped_early u64 fault
  | Gave_up u64
  | Usage

datatype ending = Returns | Exits nat | Panics panic

type_synonym session = "(line list \<times> ending) option"

definition REG_NAMES :: "string list" where
  "REG_NAMES =
     [''zero'', ''ra'', ''sp'', ''gp'', ''tp'', ''t0'', ''t1'', ''t2'', ''s0'', ''s1'', ''a0'', ''a1'', ''a2'',
      ''a3'', ''a4'', ''a5'', ''a6'', ''a7'', ''s2'', ''s3'', ''s4'', ''s5'', ''s6'', ''s7'', ''s8'', ''s9'',
      ''s10'', ''s11'', ''t3'', ''t4'', ''t5'', ''t6'']"

definition dump_registers :: "cpu \<Rightarrow> line list" where
  "dump_registers c =
     map (\<lambda>i. Reg_line (REG_NAMES ! i) i (reg_array (regs c) i)) [1..<32] @ [Pc_line (pc c)]"

section \<open>The plain machine's commands\<close>

text \<open>\<open>unwrap\<close> and \<open>expect\<close> on a result: an error becomes a panic.\<close>

definition unwrap_panic :: "fault \<Rightarrow> panic" where
  "unwrap_panic e = (case e of Emu _ \<Rightarrow> Expect_failed | Panic p \<Rightarrow> p)"

text \<open>\<open>Emulator::new(..).expect(..)\<close> on the content of a file, and the run of what it built, with the
  lines printed once it stops. A panic of the run ends the process.\<close>

definition run_plain ::
  "heap \<Rightarrow> u8 list option \<Rightarrow> u64 \<Rightarrow> (cpu \<Rightarrow> cpu) \<Rightarrow> (fault \<Rightarrow> machine \<Rightarrow> line list \<times> ending) \<Rightarrow> session" where
  "run_plain h file address prepare report =
     (case file of
        None \<Rightarrow> Some ([], Panics Expect_failed)
      | Some code \<Rightarrow>
          (case emulator_new h code address of
             Inl e \<Rightarrow> Some ([], Panics (unwrap_panic e))
           | Inr emu \<Rightarrow>
               (case emulator_run (prepare (hd (emu_cpus emu))) (emu_bus emu) of
                  None \<Rightarrow> None
                | Some (Panic p, _) \<Rightarrow> Some ([], Panics p)
                | Some (Emu e, m) \<Rightarrow> Some (report (Emu e) m))))"

abbreviation (input) FIB_EXPECTED :: u64 where "FIB_EXPECTED \<equiv> 23416728348467685"

definition run_fib :: "heap \<Rightarrow> (string \<Rightarrow> u8 list option) \<Rightarrow> string \<Rightarrow> session" where
  "run_fib h files path =
     run_plain h (files path) 0x1000
       (\<lambda>c. c\<lparr>regs := (regs c)\<lparr>reg_array := (reg_array (regs c))(10 := 80)\<rparr>\<rparr>)
       (\<lambda>err (c, b). let a0 = reg_array (regs c) 10 in
          ([Stopped err, A0_line a0 FIB_EXPECTED (a0 = FIB_EXPECTED)], Returns))"

definition run_stack_demo :: "heap \<Rightarrow> session" where
  "run_stack_demo h =
     run_plain h (Some stack_demo_program) 0x1000 (\<lambda>c. c)
       (\<lambda>err (c, b).
          let a0 = reg_array (regs c) 10; shown = [Stopped err, A0_line a0 43 (a0 = 43)] in
          case bus_read 0x3000 4 b of
            (Inl e, _) \<Rightarrow> (shown, Panics (unwrap_panic e))
          | (Inr x, b1) \<Rightarrow>
              (case bus_read 0x3004 4 b1 of
                 (Inl e, _) \<Rightarrow> (shown, Panics (unwrap_panic e))
               | (Inr y, b2) \<Rightarrow> (shown @ [Stack_words x y], Returns)))"

definition run_generic :: "heap \<Rightarrow> (string \<Rightarrow> u8 list option) \<Rightarrow> string \<Rightarrow> u64 \<Rightarrow> session" where
  "run_generic h files path address =
     run_plain h (files path) address (\<lambda>c. c)
       (\<lambda>err (c, b). (Stopped err # dump_registers c, Returns))"

section \<open>Standard input\<close>

text \<open>The reader thread: what one blocking \<open>stdin.read\<close> answers, and the bytes it sends until the end
  of the input, an error, or the receiver being gone (\<open>alive\<close> says of each send whether it is there).\<close>

datatype stdin_answer = Stdin_byte u8 | Stdin_eof | Stdin_err

fun spawn_stdin_reader :: "stdin_answer list \<Rightarrow> bool list \<Rightarrow> u8 list" where
  "spawn_stdin_reader (Stdin_byte x # rest) (True # alive) = x # spawn_stdin_reader rest alive"
| "spawn_stdin_reader _ _ = []"

text \<open>\<open>StdinChannel::read\<close>: \<open>try_recv\<close> until the buffer of \<open>len\<close> bytes is full or nothing is queued.\<close>

fun stdin_channel_loop :: "nat \<Rightarrow> u8 list \<Rightarrow> u8 list \<Rightarrow> u8 list \<times> u8 list" where
  "stdin_channel_loop 0 buf queue = (buf, queue)"
| "stdin_channel_loop (Suc n) buf [] = (buf, [])"
| "stdin_channel_loop (Suc n) buf (x # queue) = stdin_channel_loop n (buf @ [x]) queue"

definition stdin_channel_read :: "nat \<Rightarrow> u8 list \<Rightarrow> read_answer \<times> u8 list" where
  "stdin_channel_read len queue =
     (case stdin_channel_loop len [] queue of (buf, queue') \<Rightarrow> (Read_ok buf, queue'))"

section \<open>Booting xv6\<close>

text \<open>\<open>fs_image.map(|p| read(p).expect(..))\<close>.\<close>

definition load_disk_image :: "(string \<Rightarrow> u8 list option) \<Rightarrow> string option \<Rightarrow> panic + u8 list option" where
  "load_disk_image files fs_image =
     (case fs_image of
        None \<Rightarrow> Inr None
      | Some p \<Rightarrow> (case files p of None \<Rightarrow> Inl Expect_failed | Some img \<Rightarrow> Inr (Some img)))"

text \<open>The loop over rounds with its limit (0: none). A round that faults ends it, after the rounds
  counted so far.\<close>

partial_function (option) boot_loop ::
  "u64 \<Rightarrow> cpu list \<Rightarrow> bus \<Rightarrow> u64 \<Rightarrow> (fault option \<times> u64 \<times> (cpu list \<times> bus)) option" where
  "boot_loop limit cs b count =
     (case round_robin cs b of
        (Inl e, s) \<Rightarrow> Some (Some e, count, s)
      | (Inr _, s) \<Rightarrow>
          (let count' = count + 1 in
           if limit \<noteq> 0 \<and> limit \<le> count' then Some (None, count', s)
           else boot_loop limit (fst s) (snd s) count'))"

definition boot_report :: "u64 \<Rightarrow> fault option \<times> u64 \<times> (cpu list \<times> bus) \<Rightarrow> line list \<times> ending" where
  "boot_report limit = (\<lambda>(err, count, (cs, b)).
     case err of
       None \<Rightarrow> ([Limit_reached limit], Exits 0)
     | Some (Panic p) \<Rightarrow> ([], Panics p)
     | Some (Emu e) \<Rightarrow>
         (Stopped_after count (Emu e) # concat (map (\<lambda>c. Hart_line (hartid c) # dump_registers c) cs), Returns))"

definition run_xv6_boot ::
  "heap \<Rightarrow> (string \<Rightarrow> u8 list option) \<Rightarrow> read_answer list \<Rightarrow> string \<Rightarrow> u64 \<Rightarrow> u64 \<Rightarrow> string option \<Rightarrow> u64
     \<Rightarrow> session" where
  "run_xv6_boot h files stdin path address limit fs_image ncpu =
     (case (files path, load_disk_image files fs_image) of
        (None, _) \<Rightarrow> Some ([], Panics Expect_failed)
      | (Some _, Inl p) \<Rightarrow> Some ([], Panics p)
      | (Some code, Inr disk_image) \<Rightarrow>
          (case xv6_new_smp h code address (Some []) (Some stdin) disk_image ncpu of
             Inl e \<Rightarrow> Some ([], Panics (unwrap_panic e))
           | Inr emu \<Rightarrow> map_option (boot_report limit) (boot_loop limit (emu_cpus emu) (emu_bus emu) 0)))"

text \<open>The timed boot of one hart. Every 4096 instructions the bytes written so far are compared with
  the shell's prompt; \<open>Tee\<close> keeps a copy of what the UART writes.\<close>

definition tee_write :: "u8 list \<Rightarrow> u8 list \<times> u8 list \<Rightarrow> u8 list \<times> u8 list" where
  "tee_write buf = (\<lambda>(stdout, copy). (stdout @ buf, copy @ buf))"

definition uart_written :: "bus \<Rightarrow> u8 list" where
  "uart_written b = (case uart_output (uarts (heap b) 0) of None \<Rightarrow> [] | Some out \<Rightarrow> out)"

lemma tee_copies: "foldl (\<lambda>s x. tee_write [x] s) (out, out) xs = (out @ xs, out @ xs)"
  by (induction xs arbitrary: out) (simp_all add: tee_write_def)

abbreviation (input) PROMPT :: "u8 list" where "PROMPT \<equiv> [0x24, 0x20]"

partial_function (option) shell_loop ::
  "u64 \<Rightarrow> cpu \<Rightarrow> bus \<Rightarrow> u64 \<Rightarrow> u64 \<Rightarrow> (line list \<times> ending) option" where
  "shell_loop limit c b count bare_count =
     (let bare_count' = (if drop_bit 60 (csr_get (csrs c) SATP) = 8 then bare_count else bare_count + 1) in
      case step (c, b) of
        (Inl (Panic p), _) \<Rightarrow> Some ([], Panics p)
      | (Inl (Emu e), _) \<Rightarrow> Some ([Stopped_early count (Emu e)], Exits 1)
      | (Inr _, m) \<Rightarrow>
          (let count' = count + 1 in
           if count' mod 4096 = 0 \<and> suffix PROMPT (uart_written (snd m))
           then Some ([Shell_reached count' bare_count'], Exits 0)
           else if limit \<noteq> 0 \<and> limit \<le> count' then Some ([Gave_up limit], Exits 1)
           else shell_loop limit (fst m) (snd m) count' bare_count'))"

definition run_xv6_time_to_shell ::
  "heap \<Rightarrow> (string \<Rightarrow> u8 list option) \<Rightarrow> string \<Rightarrow> u64 \<Rightarrow> string option \<Rightarrow> u64 \<Rightarrow> session" where
  "run_xv6_time_to_shell h files path address fs_image limit =
     (case (files path, load_disk_image files fs_image) of
        (None, _) \<Rightarrow> Some ([], Panics Expect_failed)
      | (Some _, Inl p) \<Rightarrow> Some ([], Panics p)
      | (Some code, Inr disk_image) \<Rightarrow>
          (case xv6_new h code address (Some []) None disk_image of
             Inl e \<Rightarrow> Some ([], Panics (unwrap_panic e))
           | Inr emu \<Rightarrow> shell_loop limit (hd (emu_cpus emu)) (emu_bus emu) 0 0))"

section \<open>Arguments\<close>

text \<open>\<open>char::to_digit\<close> and \<open>u64::from_str_radix\<close>: an optional plus sign, then at least one digit of the
  radix, with every step checked for overflow.\<close>

definition to_digit :: "nat \<Rightarrow> char \<Rightarrow> nat option" where
  "to_digit radix ch =
     (let n = (of_char ch :: nat);
          d = (if 48 \<le> n \<and> n \<le> 57 then n - 48
               else if 97 \<le> n \<and> n \<le> 122 then n - 87
               else if 65 \<le> n \<and> n \<le> 90 then n - 55 else radix)
      in if d < radix then Some d else None)"

fun parse_digits :: "nat \<Rightarrow> string \<Rightarrow> u64 \<Rightarrow> u64 option" where
  "parse_digits radix [] acc = Some acc"
| "parse_digits radix (ch # rest) acc =
     (case to_digit radix ch of
        None \<Rightarrow> None
      | Some d \<Rightarrow>
          (if unat acc * radix + d < 2 ^ 64 then parse_digits radix rest (acc * of_nat radix + of_nat d) else None))"

definition from_str_radix :: "nat \<Rightarrow> string \<Rightarrow> u64 option" where
  "from_str_radix radix s =
     (if s = [] then None
      else if hd s = CHR ''+'' \<and> tl s \<noteq> [] then parse_digits radix (tl s) 0
      else parse_digits radix s 0)"

text \<open>\<open>trim_start_matches("0x")\<close> strips the prefix as often as it is there.\<close>

fun trim_0x :: "string \<Rightarrow> string" where
  "trim_0x (a # b # rest) = (if a = CHR ''0'' \<and> b = CHR ''x'' then trim_0x rest else a # b # rest)"
| "trim_0x s = s"

definition expect :: "'a option \<Rightarrow> panic + 'a" where
  "expect x = (case x of None \<Rightarrow> Inl Expect_failed | Some v \<Rightarrow> Inr v)"

definition parse_limit :: "string option \<Rightarrow> u64 \<Rightarrow> panic + u64" where
  "parse_limit arg default_limit =
     (case arg of None \<Rightarrow> Inr default_limit | Some s \<Rightarrow> expect (from_str_radix 10 s))"

definition parse_address :: "string option \<Rightarrow> u64 \<Rightarrow> panic + u64" where
  "parse_address arg default_address =
     (case arg of None \<Rightarrow> Inr default_address | Some s \<Rightarrow> expect (from_str_radix 16 (trim_0x s)))"

definition parse_ncpu :: "string option \<Rightarrow> panic + u64" where
  "parse_ncpu arg = (case arg of None \<Rightarrow> Inr 1 | Some s \<Rightarrow> expect (from_str_radix 10 s))"

datatype command =
    Fib string
  | Stack_demo
  | Xv6_boot string u64 "string option" u64 u64
  | Xv6_time_to_shell string u64 "string option" u64
  | Generic string u64
  | No_command

definition arg_at :: "string list \<Rightarrow> nat \<Rightarrow> string option" where
  "arg_at args i = (if i < length args then Some (args ! i) else None)"

definition arg_or :: "string \<Rightarrow> string option \<Rightarrow> string" where
  "arg_or default_arg arg = (case arg of None \<Rightarrow> default_arg | Some s \<Rightarrow> s)"

definition parse_command :: "string list \<Rightarrow> panic + command" where
  "parse_command args =
     (case arg_at args 1 of
        None \<Rightarrow> Inr No_command
      | Some cmd \<Rightarrow>
          if cmd = ''fib'' then Inr (Fib (arg_or ''../tests/fib.bin'' (arg_at args 2)))
          else if cmd = ''stack-demo'' then Inr Stack_demo
          else if cmd = ''xv6-boot'' then
            (case parse_address (arg_at args 3) 0x80000000 of
               Inl p \<Rightarrow> Inl p
             | Inr address \<Rightarrow>
                 (case parse_limit (arg_at args 5) 0 of
                    Inl p \<Rightarrow> Inl p
                  | Inr limit \<Rightarrow>
                      (case parse_ncpu (arg_at args 6) of
                         Inl p \<Rightarrow> Inl p
                       | Inr ncpu \<Rightarrow>
                           Inr (Xv6_boot (arg_or ''../tests/kernel64gc_nopageflush.bin'' (arg_at args 2))
                                  address (arg_at args 4) limit ncpu))))
          else if cmd = ''xv6-time-to-shell'' then
            (case parse_address (arg_at args 3) 0x80000000 of
               Inl p \<Rightarrow> Inl p
             | Inr address \<Rightarrow>
                 (case parse_limit (arg_at args 5) 2000000000 of
                    Inl p \<Rightarrow> Inl p
                  | Inr limit \<Rightarrow>
                      Inr (Xv6_time_to_shell (arg_or ''../tests/xv6-kernel-fs-small.bin'' (arg_at args 2))
                             address (Some (arg_or ''../tests/fs.img'' (arg_at args 4))) limit)))
          else
            (case parse_address (arg_at args 2) 0x1000 of
               Inl p \<Rightarrow> Inl p
             | Inr address \<Rightarrow> Inr (Generic cmd address)))"

definition main_session ::
  "heap \<Rightarrow> (string \<Rightarrow> u8 list option) \<Rightarrow> read_answer list \<Rightarrow> string list \<Rightarrow> session" where
  "main_session h files stdin args =
     (case parse_command args of
        Inl p \<Rightarrow> Some ([], Panics p)
      | Inr (Fib path) \<Rightarrow> run_fib h files path
      | Inr Stack_demo \<Rightarrow> run_stack_demo h
      | Inr (Xv6_boot path address fs_image limit ncpu) \<Rightarrow>
          run_xv6_boot h files stdin path address limit fs_image ncpu
      | Inr (Xv6_time_to_shell path address fs_image limit) \<Rightarrow>
          run_xv6_time_to_shell h files path address fs_image limit
      | Inr (Generic path address) \<Rightarrow> run_generic h files path address
      | Inr No_command \<Rightarrow> Some ([Usage], Exits 1))"

section \<open>The stack demo\<close>

text \<open>
  C17: the stack demo. The command line's \<^verbatim>\<open>stack-demo\<close> ends and prints what it announces: the
  hand-assembled program stores 42 in the stack region, loads it back, stores the sum with 1 next
  to it and returns to address 0, where no device is mapped; a0 is then 43, as expected, and the
  two words read back from the stack are 42 and 43. Nothing of the environment matters.
\<close>

theorem stack_demo_session:
  "main_session h files stdin [prog, ''stack-demo'']
     = Some ([Stopped (Emu No_device_mapped), A0_line 43 43 True, Stack_words 42 43], Returns)"
proof -
  obtain f where f: "emulator_run (demo_hart (\<lambda>_. 0) 0x1000) (demo_bus h demo_stack0)
      = Some (Emu No_device_mapped, (demo_hart f 0, demo_bus h demo_stack2))" "f 10 = 43"
    using stack_demo_outcome by blast
  have r: "bus_read 0x3000 4 (demo_bus h demo_stack2) = (Inr 42, demo_bus h demo_stack2)"
    "bus_read 0x3004 4 (demo_bus h demo_stack2) = (Inr 43, demo_bus h demo_stack2)"
    by (simp_all add: demo_stack_read demo_stack_contents)
  have "main_session h files stdin [prog, ''stack-demo''] = run_stack_demo h"
    by (simp add: main_session_def parse_command_def arg_at_def)
  then show ?thesis
    using f(2) by (simp add: run_stack_demo_def run_plain_def stack_demo_start f(1) r Let_def demo_hart_simps)
qed

section \<open>Limits\<close>

lemma count_below_limit:
  fixes count limit :: u64
  assumes "count < limit"
  shows "unat (count + 1) = Suc (unat count)" "limit \<le> count + 1 \<longleftrightarrow> count + 1 = limit"
proof -
  have "unat count < unat limit" using assms by (simp add: word_less_nat_alt)
  then show u: "unat (count + 1) = Suc (unat count)"
    using unsigned_less [of limit, where 'a = nat] unat_add_no_wrap [of count 1] by simp
  show "limit \<le> count + 1 \<longleftrightarrow> count + 1 = limit"
    using \<open>unat count < unat limit\<close> by (simp add: word_le_nat_alt word_unat_eq_iff [of "count + 1" limit] u) arith
qed

lemma boot_loop_ends:
  assumes "count < limit"
  shows "\<exists>err n s. boot_loop limit cs b count = Some (err, n, s) \<and> n \<le> limit \<and> (err = None \<longleftrightarrow> n = limit)"
  using assms
proof (induction "unat limit - unat count" arbitrary: cs b count rule: less_induct)
  case less
  obtain r s where rr: "round_robin cs b = (r, s)" by (metis surj_pair)
  have lt: "unat count < unat limit" using less.prems by (simp add: word_less_nat_alt)
  have nz: "limit \<noteq> 0" using less.prems by auto
  show ?case
  proof (cases r)
    case (Inl e)
    then have "boot_loop limit cs b count = Some (Some e, count, s)" using rr by (subst boot_loop.simps) simp
    then show ?thesis using less.prems by auto
  next
    case (Inr u)
    show ?thesis
    proof (cases "count + 1 = limit")
      case True
      then have "boot_loop limit cs b count = Some (None, limit, s)" using rr Inr nz by (subst boot_loop.simps) (simp add: Let_def)
      then show ?thesis by auto
    next
      case False
      then have "count + 1 < limit" "boot_loop limit cs b count = boot_loop limit (fst s) (snd s) (count + 1)"
        using rr Inr count_below_limit(2) [OF less.prems] by (auto simp: not_le [symmetric], subst boot_loop.simps, simp add: Let_def)
      moreover have "unat limit - unat (count + 1) < unat limit - unat count"
        using lt count_below_limit(1) [OF less.prems] by simp
      ultimately show ?thesis using less.hyps [of "count + 1" "fst s" "snd s"] by simp
    qed
  qed
qed

lemma shell_loop_ends:
  assumes "count < limit"
  shows "\<exists>y. shell_loop limit c b count bare = Some y"
  using assms
proof (induction "unat limit - unat count" arbitrary: c b count bare rule: less_induct)
  case less
  obtain r m where st: "step (c, b) = (r, m)" by (metis surj_pair)
  have lt: "unat count < unat limit" using less.prems by (simp add: word_less_nat_alt)
  have nz: "limit \<noteq> 0" using less.prems by auto
  show ?case
  proof (cases "count + 1 = limit")
    case True
    then show ?thesis using st nz by (subst shell_loop.simps) (auto simp: Let_def split: sum.split fault.split)
  next
    case False
    then have "count + 1 < limit" using count_below_limit(2) [OF less.prems] by (auto simp: not_le [symmetric])
    moreover have "unat limit - unat (count + 1) < unat limit - unat count"
      using lt count_below_limit(1) [OF less.prems] by simp
    ultimately have "\<exists>y. shell_loop limit (fst m) (snd m) (count + 1) bare' = Some y" for bare'
      using less.hyps [of "count + 1" "fst m" "snd m" bare'] by simp
    then show ?thesis using st by (subst shell_loop.simps) (auto simp: Let_def split: sum.split fault.split)
  qed
qed

text \<open>
  C16: instruction limits. With a limit given, both boot commands end, whatever kernel and disk they
  are started with; the boot loop runs at most that many rounds, and exactly that many when no hart
  faults before.
\<close>

theorem limited_boots_end:
  assumes "limit \<noteq> 0"
  shows "(\<exists>out. run_xv6_boot h files stdin path address limit fs_image ncpu = Some out)
    \<and> (\<exists>out. run_xv6_time_to_shell h files path address fs_image limit = Some out)
    \<and> (\<exists>err n s. boot_loop limit cs b 0 = Some (err, n, s) \<and> n \<le> limit \<and> (err = None \<longleftrightarrow> n = limit))"
proof -
  have "0 < limit" using assms by (simp add: word_neq_0_conv)
  then have b: "\<exists>err n s. boot_loop limit cs b 0 = Some (err, n, s) \<and> n \<le> limit \<and> (err = None \<longleftrightarrow> n = limit)" for cs b
    by (rule boot_loop_ends)
  have s: "\<exists>y. shell_loop limit c b 0 0 = Some y" for c b using \<open>0 < limit\<close> by (rule shell_loop_ends)
  have m: "\<exists>y. map_option (boot_report limit) (boot_loop limit cs b 0) = Some y" for cs b
    using b [of cs b] by (elim exE conjE) simp
  have "\<exists>out. run_xv6_boot h files stdin path address limit fs_image ncpu = Some out"
    using m unfolding run_xv6_boot_def by (auto simp del: option.map_sel map_option_eq_Some split: option.split sum.split)
  moreover have "\<exists>out. run_xv6_time_to_shell h files path address fs_image limit = Some out"
    using s unfolding run_xv6_time_to_shell_def by (auto split: option.split sum.split)
  ultimately show ?thesis using b by blast
qed

theorem limited_boots_end_witness:
  "\<exists>out. run_xv6_boot empty_heap (\<lambda>_. Some [0x13, 0, 0, 0]) [] ''kernel'' 0x80000000 5 None 1 = Some out"
  using limited_boots_end [of 5] by simp

section \<open>Numbers\<close>

text \<open>The value of a digit string, without bounds.\<close>

definition digits_value :: "nat \<Rightarrow> string \<Rightarrow> nat" where
  "digits_value radix s = foldl (\<lambda>acc ch. acc * radix + the (to_digit radix ch)) 0 s"

lemma foldl_digits_mono: "acc \<le> foldl (\<lambda>acc ch. acc * radix + the (to_digit radix ch)) acc s" if "0 < radix" for acc :: nat
proof (induction s arbitrary: acc)
  case (Cons ch s)
  have "acc \<le> acc * radix + the (to_digit radix ch)" using that by (simp add: trans_le_add1)
  then show ?case using Cons [of "acc * radix + the (to_digit radix ch)"] by simp
qed simp

lemma parse_digits_value:
  assumes "0 < radix" "list_all (\<lambda>ch. to_digit radix ch \<noteq> None) s"
  shows "parse_digits radix s acc =
    (let v = foldl (\<lambda>acc ch. acc * radix + the (to_digit radix ch)) (unat acc) s in
     if v < 2 ^ 64 then Some (of_nat v) else None)"
  using assms(2)
proof (induction s arbitrary: acc)
  case Nil
  show ?case using unsigned_less [of acc, where 'a = nat] by simp
next
  case (Cons ch s)
  then obtain d where d: "to_digit radix ch = Some d" by auto
  let ?v = "unat acc * radix + d"
  show ?case
  proof (cases "?v < 2 ^ 64")
    case True
    then have "unat (acc * of_nat radix + of_nat d) = ?v"
    proof -
      have "acc * of_nat radix + of_nat d = (of_nat ?v :: u64)" by simp
      then show ?thesis using True by (simp only: unat_of_nat) simp
    qed
    then show ?thesis using Cons True d by (simp add: Let_def)
  next
    case False
    then show ?thesis using foldl_digits_mono [OF assms(1), of ?v s] d by (simp add: Let_def)
  qed
qed


lemma plus_no_digit: "radix \<le> 16 \<Longrightarrow> to_digit radix CHR ''+'' = None"
  by (simp add: to_digit_def)

text \<open>
  Number arguments: a non-empty string of digits of the radix, with or without a plus sign, is
  read as its value exactly when that is below \<open>2 ^ 64\<close> and refused otherwise, instead of wrapping; a
  string with any other character is refused, and so is the empty one.
\<close>

lemma from_str_radix_value:
  assumes "0 < radix" "radix \<le> 16"
  shows "(list_all (\<lambda>ch. to_digit radix ch \<noteq> None) s \<and> s \<noteq> [] \<longrightarrow>
      from_str_radix radix s = (if digits_value radix s < 2 ^ 64 then Some (of_nat (digits_value radix s)) else None)
      \<and> from_str_radix radix (CHR ''+'' # s) = from_str_radix radix s)
    \<and> (\<not> list_all (\<lambda>ch. to_digit radix ch \<noteq> None) s \<longrightarrow> from_str_radix radix (CHR ''+'' # s) = None)
    \<and> (\<not> list_all (\<lambda>ch. to_digit radix ch \<noteq> None) s \<and> hd s \<noteq> CHR ''+'' \<longrightarrow> from_str_radix radix s = None)
    \<and> from_str_radix radix [] = None \<and> from_str_radix radix ''+'' = None"
proof -
  have plus: "s \<noteq> [] \<Longrightarrow> list_all (\<lambda>ch. to_digit radix ch \<noteq> None) s \<Longrightarrow> hd s \<noteq> CHR ''+''"
    using plus_no_digit [OF assms(2)] by (cases s) auto
  have bad: "\<not> list_all (\<lambda>ch. to_digit radix ch \<noteq> None) t \<Longrightarrow> parse_digits radix t acc = None" for t acc
    by (induction t arbitrary: acc) (auto split: option.split)
  show ?thesis
    using plus bad [of s 0] parse_digits_value [OF assms(1), of s 0] plus_no_digit [OF assms(2)]
    by (auto simp: from_str_radix_def digits_value_def Let_def)
qed

lemma trim_0x_digits:
  assumes "list_all (\<lambda>ch. to_digit 16 ch \<noteq> None) ds"
  shows "trim_0x ds = ds" "trim_0x (''0x'' @ ds) = ds"
proof -
  have x: "to_digit 16 CHR ''x'' = None" by (simp add: to_digit_def)
  show "trim_0x ds = ds" using assms x by (cases ds rule: trim_0x.cases) auto
  then show "trim_0x (''0x'' @ ds) = ds" by simp
qed

section \<open>Commands\<close>

text \<open>
  C34: the positional arguments of the boot command. With a kernel, an address in hexadecimal (with or
  without \<^verbatim>\<open>0x\<close>), a file-system image, a limit and a number of harts, they reach the machine in that
  order; a limit that is not a number stops the command with a panic before anything is read, and
  is never replaced by the default.
\<close>

theorem boot_arguments:
  assumes "from_str_radix 16 (trim_0x addr) = Some a" "from_str_radix 10 n = Some ncpu"
  shows "(\<forall>lim. from_str_radix 10 l = Some lim \<longrightarrow>
      main_session h files stdin [prog, ''xv6-boot'', path, addr, img, l, n] = run_xv6_boot h files stdin path a lim (Some img) ncpu
      \<and> main_session h files stdin [prog, ''xv6-time-to-shell'', path, addr, img, l] = run_xv6_time_to_shell h files path a (Some img) lim)
    \<and> (from_str_radix 10 l = None \<longrightarrow>
      main_session h files stdin [prog, ''xv6-boot'', path, addr, img, l, n] = Some ([], Panics Expect_failed)
      \<and> main_session h files stdin [prog, ''xv6-time-to-shell'', path, addr, img, l] = Some ([], Panics Expect_failed))"
  using assms
  by (auto simp: main_session_def parse_command_def arg_at_def arg_or_def parse_address_def parse_limit_def parse_ncpu_def expect_def)

theorem boot_arguments_witness:
  "main_session empty_heap (\<lambda>_. None) [] [''rv64rs'', ''xv6-boot'', ''kernel'', ''0x80000000'', ''5000'', ''fs.img'', ''1'']
     = Some ([], Panics Expect_failed)"
proof -
  have "from_str_radix 16 (trim_0x ''0x80000000'') = Some 0x80000000" "from_str_radix 10 ''1'' = Some 1"
    "from_str_radix 10 ''fs.img'' = None" by (simp_all add: from_str_radix_def to_digit_def)
  with boot_arguments [of "''0x80000000''" "0x80000000" "''1''" 1 "''fs.img''" empty_heap "\<lambda>_. None" "[]" "''rv64rs''" "''kernel''" "''5000''"]
  show ?thesis by simp
qed

text \<open>
  C33: running a program file. Given a path that is none of the subcommands and a non-empty string of
  hexadecimal digits, with or without \<^verbatim>\<open>0x\<close>, the file is run at the address the digits denote when that
  is below \<open>2 ^ 64\<close>; a larger number panics instead of wrapping, as does a string with any other
  character in it (and no leading sign or prefix). Without an address the file is run at 0x1000.
\<close>

theorem address_argument:
  assumes "path \<notin> {''fib'', ''stack-demo'', ''xv6-boot'', ''xv6-time-to-shell''}"
  shows "(list_all (\<lambda>ch. to_digit 16 ch \<noteq> None) ds \<and> ds \<noteq> [] \<longrightarrow>
      (\<forall>addr \<in> {ds, ''0x'' @ ds}. main_session h files stdin [prog, path, addr] =
         (if digits_value 16 ds < 2 ^ 64 then run_generic h files path (of_nat (digits_value 16 ds))
          else Some ([], Panics Expect_failed))))
    \<and> (\<not> list_all (\<lambda>ch. to_digit 16 ch \<noteq> None) ds \<and> hd ds \<noteq> CHR ''+'' \<and> trim_0x ds = ds \<longrightarrow>
         main_session h files stdin [prog, path, ds] = Some ([], Panics Expect_failed))
    \<and> main_session h files stdin [prog, path] = run_generic h files path 0x1000"
proof -
  have run: "main_session h files stdin [prog, path, addr] =
      (case from_str_radix 16 (trim_0x addr) of
         None \<Rightarrow> Some ([], Panics Expect_failed) | Some a \<Rightarrow> run_generic h files path a)" for addr
    using assms by (simp add: main_session_def parse_command_def arg_at_def parse_address_def expect_def split: option.split)
  moreover have "main_session h files stdin [prog, path] = run_generic h files path 0x1000"
    using assms by (simp add: main_session_def parse_command_def arg_at_def parse_address_def)
  ultimately show ?thesis
    using from_str_radix_value [of 16 ds] trim_0x_digits [of ds] by auto
qed

theorem address_argument_witness:
  "main_session empty_heap (\<lambda>_. None) [] [''rv64rs'', ''a.bin'', ''0x80000000'']
     = run_generic empty_heap (\<lambda>_. None) ''a.bin'' 0x80000000"
proof -
  have "list_all (\<lambda>ch. to_digit 16 ch \<noteq> None) ''80000000''" "digits_value 16 ''80000000'' = 0x80000000"
    by (simp_all add: digits_value_def to_digit_def)
  then show ?thesis
    using address_argument [of "''a.bin''" "''80000000''" empty_heap "\<lambda>_. None" "[]" "''rv64rs''"] by simp
qed

section \<open>Standard input\<close>

lemma stdin_channel_loop_take: "stdin_channel_loop n buf q = (buf @ take n q, drop n q)"
  by (induction n buf q rule: stdin_channel_loop.induct) simp_all

lemma stdin_channel_read_take: "stdin_channel_read n q = (Read_ok (take n q), drop n q)"
  by (simp add: stdin_channel_read_def stdin_channel_loop_take)

text \<open>The answers \<open>k\<close> polls of the UART get from the channel while nothing more is typed.\<close>

fun channel_answers :: "nat \<Rightarrow> u8 list \<Rightarrow> read_answer list" where
  "channel_answers 0 q = []"
| "channel_answers (Suc k) q = (case stdin_channel_read 256 q of (a, q') \<Rightarrow> a # channel_answers k q')"

fun poll_times :: "nat \<Rightarrow> (uart, unit) op" where
  "poll_times 0 = ok ()"
| "poll_times (Suc k) = and_then poll_input (\<lambda>_. poll_times k)"

text \<open>
  C32: typed input. Bytes the reader thread sent reach the UART's receive queue in order, each once,
  256 at a poll, behind what was queued; a poll that finds the channel empty changes nothing else,
  and polling never faults.
\<close>

theorem stdin_reaches_uart:
  assumes "uart_input u = Some (channel_answers k q @ rest)"
  shows "poll_times k u = (Inr (), u\<lparr>uart_input := Some rest, rx_queue := rx_queue u @ take (256 * k) q\<rparr>)"
  using assms
proof (induction k arbitrary: u q)
  case 0
  then show ?case by (simp add: ok_def)
next
  case (Suc k)
  let ?u = "u\<lparr>uart_input := Some (channel_answers k (drop 256 q) @ rest), rx_queue := rx_queue u @ take 256 q\<rparr>"
  have "poll_input u = (Inr (), ?u)"
    using Suc.prems by (simp add: poll_input_def stdin_channel_read_take)
  moreover have "take 256 q @ take (256 * k) (drop 256 q) = take (256 * Suc k) q"
    by (simp add: take_add)
  ultimately show ?case using Suc.IH [of ?u "drop 256 q"] by (simp add: and_then_def)
qed

theorem stdin_reaches_uart_witness:
  "rx_queue (snd (poll_times 2 (uart_new 0x100 None (Some (channel_answers 2 [0x6c, 0x73, 0x0a]))))) = [0x6c, 0x73, 0x0a]"
  using stdin_reaches_uart [of "uart_new 0x100 None (Some (channel_answers 2 [0x6c, 0x73, 0x0a]))" 2 "[0x6c, 0x73, 0x0a]" "[]"]
  by (simp add: uart_new_def)

end
