(* ===== verification/Boot_Rom.thy ===== *)
theory Boot_Rom
  imports Machine_Invariants
begin

text \<open>
  The boot ROM of the xv6 machine (\<open>BOOTLOADER_HEX\<close> in \<^verbatim>\<open>emulator.rs\<close>): what its six instructions do
  on every hart, with the timer ticking, the UART being polled and interrupts being sampled before
  each of them.
\<close>

section \<open>Harts and buses during the boot\<close>

text \<open>The contract of \<open>Read::read\<close>: no more bytes than the buffer of 256 holds.\<close>

definition reader_ok :: "read_answer list option \<Rightarrow> bool" where
  "reader_ok inp \<longleftrightarrow> (case inp of None \<Rightarrow> True
     | Some answers \<Rightarrow> list_all (\<lambda>a. case a of Read_ok bs \<Rightarrow> length bs \<le> 256 | Read_err \<Rightarrow> True) answers)"

definition boot_hart :: "u64 \<Rightarrow> (nat \<Rightarrow> u64) \<Rightarrow> u64 \<Rightarrow> cpu \<Rightarrow> bool" where
  "boot_hart i f p c \<longleftrightarrow> mode c = PRIV_M \<and> csr_get (csrs c) MSTATUS AND MSTATUS_MIE = 0
     \<and> drop_bit 60 (csr_get (csrs c) SATP) = MODE_BARE \<and> csr_get (csrs c) MHARTID = i \<and> hartid c = i
     \<and> cpu_clint c = Some 0 \<and> cpu_uart c = Some 0 \<and> cpu_plic c = Some 0
     \<and> regs c = \<lparr>reg_array = f\<rparr> \<and> f 0 = 0 \<and> pc c = p"

definition boot_bus :: "nat \<Rightarrow> bus \<Rightarrow> bool" where
  "boot_bus n b \<longleftrightarrow> bootloader_range b = \<lparr>range_start = BOOTLOADER_ADDR, range_size = 40\<rparr>
     \<and> bus_bootloader b = \<lparr>ram_data = boot_image\<rparr>
     \<and> 0x2000 \<le> range_start (ram_range b) \<and> 0x2000 \<le> range_start (stack_range b)
     \<and> length (mtimecmp (clints (heap b) 0)) = n
     \<and> devices_by_irq (plics (heap b) 0) = [(UART0_IRQ, Uart_source 0), (VIRTIO0_IRQ, Virtio_source 0)]
     \<and> (\<exists>blk. virtios (heap b) 0 = Available blk) \<and> reader_ok (uart_input (uarts (heap b) 0))"

section \<open>What precedes every instruction\<close>

lemma masked_priority_loop:
  assumes "mode c = PRIV_M" "mstatus AND MSTATUS_MIE = 0"
  shows "priority_loop c pe mstatus causes = (False, c)"
  using assms by (induction causes) (simp_all add: deliverable_def Let_def)

lemma boot_tick:
  assumes "boot_hart i f p c" "boot_bus n b"
  shows "\<exists>b'. tick_clint (c, b) = (Inr (), (c, b')) \<and> boot_bus n b'"
  using assms by (auto simp: boot_hart_def boot_bus_def tick_clint_def tick_def)

lemma boot_poll:
  assumes "boot_hart i f p c" "boot_bus n b"
  shows "\<exists>c' b'. poll_uart (c, b) = (Inr (), (c', b')) \<and> boot_hart i f p c' \<and> boot_bus n b'"
proof -
  have "\<exists>u. poll_input (uarts (heap b) 0) = (Inr (), u) \<and> reader_ok (uart_input u)"
  proof (cases "uart_input (uarts (heap b) 0)")
    case (Some answers)
    then show ?thesis
      using assms(2) by (cases answers) (auto simp: boot_bus_def poll_input_def reader_ok_def split: read_answer.splits)
  qed (simp add: poll_input_def reader_ok_def)
  then show ?thesis
    using assms by (auto simp: boot_hart_def boot_bus_def poll_uart_def Let_def)
qed

lemma boot_sample:
  assumes "boot_hart i f p c" "boot_bus n b" "unat i < n"
  shows "\<exists>mip. sampled_mip (heap b) c = Inr mip"
proof -
  obtain blk where "virtios (heap b) 0 = Available blk" using assms(2) by (auto simp: boot_bus_def)
  then have "\<exists>m. pending_mask (irq_status (heap b)) (plics (heap b) 0) = Inr m"
    using assms(2) by (simp add: boot_bus_def pending_mask_def irq_status_def)
  then show ?thesis
    using assms by (auto simp: boot_hart_def boot_bus_def sampled_mip_def pending_def claimable_def claim_irq_def Let_def)
qed

lemma boot_check:
  assumes "boot_hart i f p c" "boot_bus n b" "unat i < n"
  shows "\<exists>c'. check_interrupt (c, b) = (Inr False, (c', b)) \<and> boot_hart i f p c'"
proof -
  obtain mip where "sampled_mip (heap b) c = Inr mip" using boot_sample [OF assms] by blast
  moreover have "boot_hart i f p (cset MIP mip c)" using assms(1) by (simp add: boot_hart_def)
  ultimately show ?thesis
    using assms(1) by (auto simp: check_interrupt_def Let_def boot_hart_def masked_priority_loop)
qed

section \<open>The instructions\<close>

definition boot_words :: "u32 list" where
  "boot_words = [0x00000297, 0x02828613, 0xf1402573, 0x0202b583, 0x0182b283, 0x00028067]"

lemma boot_read:
  assumes "boot_bus n b"
  shows "k < 6 \<Longrightarrow> bus_read (0x1000 + 4 * of_nat k) 4 b = (Inr (ucast (boot_words ! k)), b)"
    "bus_read 0x1018 8 b = (Inr 0x80000000, b)" "bus_read 0x1020 8 b = (Inr 0x87000000, b)"
proof -
  have nc: "\<not> contains (ram_range b) a m" "\<not> contains (stack_range b) a m" if "a < 0x2000" for a m
    using assms that by (auto simp: boot_bus_def contains_def split: option.splits)
  have rd: "bus_read a m b = (fst (ram_read (a - 0x1000) m \<lparr>ram_data = boot_image\<rparr>), b)"
    if "a < 0x2000" "contains \<lparr>range_start = BOOTLOADER_ADDR, range_size = 40\<rparr> a (ucast m)" for a m
    using assms that nc [of a]
    by (simp add: bus_read_def read_mmio_def boot_bus_def on_field_eqs pure_op_state [OF ram_read_pure])
  have w: "contains \<lparr>range_start = BOOTLOADER_ADDR, range_size = 40\<rparr> a m" if "0x1000 \<le> unat a" "unat a + unat m \<le> 0x1028" for a m
    using that by (simp add: contains_covers entry_end_def covers_def)
  have r: "bus_read a m b = (fst (ram_read (a - 0x1000) m \<lparr>ram_data = boot_image\<rparr>), b)"
    if "0x1000 \<le> unat a" "unat a + unat (ucast m :: u64) \<le> 0x1028" for a m
    using that by (intro rd w) (simp_all add: word_less_nat_alt)
  show "bus_read (0x1000 + 4 * of_nat k) 4 b = (Inr (ucast (boot_words ! k)), b)" if "k < 6"
  proof -
    consider "k = 0" | "k = 1" | "k = 2" | "k = 3" | "k = 4" | "k = 5" using \<open>k < 6\<close> by linarith
    then show ?thesis
      by cases (simp_all add: r ram_read_def slice_def boot_image_bytes boot_words_def)
  qed
  show "bus_read 0x1018 8 b = (Inr 0x80000000, b)" "bus_read 0x1020 8 b = (Inr 0x87000000, b)"
    by (simp_all add: r ram_read_def slice_def boot_image_bytes)
qed

lemma boot_decoded:
  "execute_at p n (instruction_new 0x297) = and_then (set_reg 5 p) (\<lambda>_. ok n)"
  "execute_at p n (instruction_new 0x02828613) = and_then (get_reg 5) (\<lambda>a. and_then (set_reg 12 (a + 40)) (\<lambda>_. ok n))"
  "execute_at p n (instruction_new 0xf1402573) =
     and_then (get_reg 0) (\<lambda>_. and_then (gets (\<lambda>(c, b). csr_read c MHARTID)) (\<lambda>v. and_then (set_reg 10 v) (\<lambda>_. ok n)))"
  "execute_at p n (instruction_new 0x0202b583) =
     and_then (get_reg 5) (\<lambda>a. and_then (cpu_read (a + 32) 8) (\<lambda>v. and_then (set_reg 11 v) (\<lambda>_. ok n)))"
  "execute_at p n (instruction_new 0x0182b283) =
     and_then (get_reg 5) (\<lambda>a. and_then (cpu_read (a + 24) 8) (\<lambda>v. and_then (set_reg 5 v) (\<lambda>_. ok n)))"
  "execute_at p n (instruction_new 0x00028067) =
     and_then (get_reg 5) (\<lambda>a. and_then (set_reg 0 n) (\<lambda>_. ok (a AND NOT 1)))"
proof -
  have "opcode (instruction_new 0x297) = 0x17 \<and> rd (instruction_new 0x297) = 5 \<and> imm_u (instruction_new 0x297) = 0" by code_simp
  then show "execute_at p n (instruction_new 0x297) = and_then (set_reg 5 p) (\<lambda>_. ok n)"
    by (simp add: execute_at_def write_rd_Some)
  have "opcode (instruction_new 0x02828613) = 0x13 \<and> rd (instruction_new 0x02828613) = 12 \<and> rs1 (instruction_new 0x02828613) = 5
      \<and> funct3 (instruction_new 0x02828613) = 0 \<and> imm_i (instruction_new 0x02828613) = 40" by code_simp
  then show "execute_at p n (instruction_new 0x02828613) = and_then (get_reg 5) (\<lambda>a. and_then (set_reg 12 (a + 40)) (\<lambda>_. ok n))"
    by (simp add: execute_at_def exec_op_imm_def alu_imm_def Let_def write_rd_Some)
  have "opcode (instruction_new 0xf1402573) = 0x73 \<and> rd (instruction_new 0xf1402573) = 10 \<and> rs1 (instruction_new 0xf1402573) = 0
      \<and> funct3 (instruction_new 0xf1402573) = 2 \<and> csr (instruction_new 0xf1402573) = MHARTID" by code_simp
  moreover have "csr_write c MHARTID v = c" for c v by (simp add: csr_write_def)
  ultimately show "execute_at p n (instruction_new 0xf1402573) =
      and_then (get_reg 0) (\<lambda>_. and_then (gets (\<lambda>(c, b). csr_read c MHARTID)) (\<lambda>v. and_then (set_reg 10 v) (\<lambda>_. ok n)))"
    by (simp add: execute_at_def execute_system_def csr_update_def Let_def on_cpu_def and_then_def ok_def fun_eq_iff split_beta split: sum.split)
  have "opcode (instruction_new 0x0202b583) = 3 \<and> rd (instruction_new 0x0202b583) = 11 \<and> rs1 (instruction_new 0x0202b583) = 5
      \<and> funct3 (instruction_new 0x0202b583) = 3 \<and> imm_i (instruction_new 0x0202b583) = 32" by code_simp
  then show "execute_at p n (instruction_new 0x0202b583) =
      and_then (get_reg 5) (\<lambda>a. and_then (cpu_read (a + 32) 8) (\<lambda>v. and_then (set_reg 11 v) (\<lambda>_. ok n)))"
    by (simp add: execute_at_def exec_load_def load_value_def)
  have "opcode (instruction_new 0x0182b283) = 3 \<and> rd (instruction_new 0x0182b283) = 5 \<and> rs1 (instruction_new 0x0182b283) = 5
      \<and> funct3 (instruction_new 0x0182b283) = 3 \<and> imm_i (instruction_new 0x0182b283) = 24" by code_simp
  then show "execute_at p n (instruction_new 0x0182b283) =
      and_then (get_reg 5) (\<lambda>a. and_then (cpu_read (a + 24) 8) (\<lambda>v. and_then (set_reg 5 v) (\<lambda>_. ok n)))"
    by (simp add: execute_at_def exec_load_def load_value_def)
  have "opcode (instruction_new 0x00028067) = 0x67 \<and> rd (instruction_new 0x00028067) = 0 \<and> rs1 (instruction_new 0x00028067) = 5
      \<and> imm_i (instruction_new 0x00028067) = 0" by code_simp
  then show "execute_at p n (instruction_new 0x00028067) =
      and_then (get_reg 5) (\<lambda>a. and_then (set_reg 0 n) (\<lambda>_. ok (a AND NOT 1)))"
    by (simp only: execute_at_def exec_jalr_def Let_def) simp
qed

text \<open>The registers before instruction \<open>k\<close> of the ROM on hart \<open>i\<close>.\<close>

fun boot_regs :: "u64 \<Rightarrow> nat \<Rightarrow> nat \<Rightarrow> u64" where
  "boot_regs i 0 = (\<lambda>_. 0)"
| "boot_regs i (Suc k) =
     (if k = 0 then (boot_regs i k)(5 := 0x1000)
      else if k = 1 then (boot_regs i k)(12 := 0x1028)
      else if k = 2 then (boot_regs i k)(10 := i)
      else if k = 3 then (boot_regs i k)(11 := 0x87000000)
      else if k = 4 then (boot_regs i k)(5 := 0x80000000)
      else boot_regs i k)"

definition boot_pc :: "nat \<Rightarrow> u64" where
  "boot_pc k = (if k < 6 then 0x1000 + 4 * of_nat k else 0x80000000)"

lemma boot_accesses:
  assumes "boot_hart i f p c" "boot_bus n b"
  shows "r < 32 \<Longrightarrow> get_reg r (c, b) = (Inr (f r), (c, b))"
    "0 < r \<Longrightarrow> r < 32 \<Longrightarrow> \<exists>c'. set_reg r v (c, b) = (Inr (), (c', b)) \<and> boot_hart i (f(r := v)) p c'"
    "set_reg 0 v (c, b) = (Inr (), (c, b))"
    "cpu_read 0x1018 8 (c, b) = (Inr 0x80000000, (c, b))" "cpu_read 0x1020 8 (c, b) = (Inr 0x87000000, (c, b))"
    "csr_read c MHARTID = i"
proof -
  have t: "translate a acc (c, b) = (Inr a, (c, b))" for a acc
    using assms(1) by (simp add: translate_def boot_hart_def)
  show "cpu_read 0x1018 8 (c, b) = (Inr 0x80000000, (c, b))" "cpu_read 0x1020 8 (c, b) = (Inr 0x87000000, (c, b))"
    using boot_read(2,3) [OF assms(2)] by (simp_all add: cpu_read_def and_then_def t on_snd_def)
qed (use assms(1) in \<open>auto simp: boot_hart_def get_reg_in_range set_reg_in_range csr_read_def aliased_target_def\<close>)

lemma boot_execute:
  assumes "k < 6" "boot_hart i (boot_regs i k) (boot_pc k) c" "boot_bus n b"
  shows "\<exists>c'. execute_at (boot_pc k) (boot_pc k + 4) (instruction_new (boot_words ! k)) (c, b) = (Inr (boot_pc (Suc k)), (c', b))
    \<and> boot_hart i (boot_regs i (Suc k)) (boot_pc k) c'"
proof -
  note A = boot_accesses [OF assms(2,3)]
  consider "k = 0" | "k = 1" | "k = 2" | "k = 3" | "k = 4" | "k = 5" using assms(1) by linarith
  then show ?thesis
  proof cases
    case 1 with A(2) [of 5 "0x1000"] show ?thesis
      by (auto simp: boot_words_def boot_decoded boot_pc_def and_then_def ok_def)
  next
    case 2 with A(1) [of 5] A(2) [of 12 "0x1028"] show ?thesis
      by (auto simp: boot_words_def boot_decoded boot_pc_def and_then_def ok_def)
  next
    case 3 with A(1) [of 0] A(2) [of 10 i] A(6) show ?thesis
      by (auto simp: boot_words_def boot_decoded boot_pc_def and_then_def ok_def gets_def eval_nat_numeral)
  next
    case 4 with A(1) [of 5] A(2) [of 11 "0x87000000"] A(5) show ?thesis
      by (auto simp: boot_words_def boot_decoded boot_pc_def and_then_def ok_def eval_nat_numeral)
  next
    case 5 with A(1) [of 5] A(2) [of 5 "0x80000000"] A(4) show ?thesis
      by (auto simp: boot_words_def boot_decoded boot_pc_def and_then_def ok_def eval_nat_numeral)
  next
    case 6 with A(1) [of 5] A(3) assms(2) show ?thesis
      by (auto simp: boot_words_def boot_decoded boot_pc_def and_then_def ok_def eval_nat_numeral)
  qed
qed

lemma boot_step:
  assumes "k < 6" "boot_hart i (boot_regs i k) (boot_pc k) c" "boot_bus n b" "unat i < n"
  shows "\<exists>c' b'. step (c, b) = (Inr (), (c', b')) \<and> boot_hart i (boot_regs i (Suc k)) (boot_pc (Suc k)) c' \<and> boot_bus n b'"
proof -
  obtain b1 where 1: "tick_clint (c, b) = (Inr (), (c, b1))" "boot_bus n b1" using boot_tick [OF assms(2,3)] by blast
  obtain c2 b2 where 2: "poll_uart (c, b1) = (Inr (), (c2, b2))" "boot_hart i (boot_regs i k) (boot_pc k) c2" "boot_bus n b2"
    using boot_poll [OF assms(2) 1(2)] by blast
  obtain c3 where 3: "check_interrupt (c2, b2) = (Inr False, (c3, b2))" "boot_hart i (boot_regs i k) (boot_pc k) c3"
    using boot_check [OF 2(2,3) assms(4)] by blast
  obtain c4 where 4: "execute_at (boot_pc k) (boot_pc k + 4) (instruction_new (boot_words ! k)) (c3, b2) = (Inr (boot_pc (Suc k)), (c4, b2))"
    "boot_hart i (boot_regs i (Suc k)) (boot_pc k) c4"
    using boot_execute [OF assms(1) 3(2) 2(3)] by blast
  have p: "pc c3 = boot_pc k" "translate a acc (c3, b2) = (Inr a, (c3, b2))" for a acc
    using 3(2) by (simp_all add: boot_hart_def translate_def)
  have "boot_words ! k AND 0b11 = 0b11"
    using assms(1) by (auto simp: less_Suc_eq eval_nat_numeral(2,3) boot_words_def nth_Cons')
  then have "fetch (c, b) = (Inr (Full (instruction_new (boot_words ! k))), (c3, b2))"
    using boot_read(1) [OF 2(3) assms(1)] assms(1)
    by (simp add: fetch_def and_then_def 1 2 3 gets_def p on_snd_def boot_pc_def ucast_up_down ok_def)
  then have "step (c, b) = (Inr (), (c4\<lparr>pc := boot_pc (Suc k)\<rparr>, b2))"
    by (simp add: step_def and_then_def cpu_execute_def execute_def gets_def p 4 on_cpu_def)
  moreover have "boot_hart i (boot_regs i (Suc k)) (boot_pc (Suc k)) (c4\<lparr>pc := boot_pc (Suc k)\<rparr>)"
    using 4(2) by (simp add: boot_hart_def)
  ultimately show ?thesis using 2(3) by blast
qed

section \<open>All harts\<close>

text \<open>The harts of a machine, each before instruction \<open>k\<close>, the first one numbered \<open>j\<close>.\<close>

definition boot_harts :: "nat \<Rightarrow> nat \<Rightarrow> cpu list \<Rightarrow> bool" where
  "boot_harts k j cs \<longleftrightarrow> (\<forall>i < length cs. boot_hart (of_nat (j + i)) (boot_regs (of_nat (j + i)) k) (boot_pc k) (cs ! i))"

lemma boot_harts_Cons:
  "boot_harts k j (c # cs) \<longleftrightarrow>
     boot_hart (of_nat j) (boot_regs (of_nat j) k) (boot_pc k) c \<and> boot_harts k (Suc j) cs"
  by (simp add: boot_harts_def All_less_Suc2 ac_simps)

lemma boot_round:
  assumes "k < 6" "boot_harts k j cs" "boot_bus n b" "j + length cs \<le> n" "n < 2 ^ 64"
  shows "\<exists>cs' b'. round_robin cs b = (Inr (), (cs', b')) \<and> length cs' = length cs \<and> boot_harts (Suc k) j cs' \<and> boot_bus n b'"
  using assms(2-4)
proof (induction cs arbitrary: j b)
  case (Cons c cs)
  have u: "unat (of_nat j :: u64) < n" using Cons.prems(3) assms(5) by (simp add: unat_of_nat)
  have h: "boot_hart (of_nat j) (boot_regs (of_nat j) k) (boot_pc k) c" "boot_harts k (Suc j) cs"
    using Cons.prems(1) by (simp_all add: boot_harts_Cons)
  from boot_step [OF assms(1) h(1) Cons.prems(2) u] obtain c' b' where
    s: "step (c, b) = (Inr (), (c', b'))" "boot_hart (of_nat j) (boot_regs (of_nat j) (Suc k)) (boot_pc (Suc k)) c'" "boot_bus n b'"
    by blast
  from Cons.IH [OF h(2) s(3)] Cons.prems(3) obtain cs' b'' where
    r: "round_robin cs b' = (Inr (), (cs', b''))" "length cs' = length cs" "boot_harts (Suc k) (Suc j) cs'" "boot_bus n b''"
    by auto
  then have "boot_harts (Suc k) j (c' # cs')" using s(2) unfolding boot_harts_Cons by blast
  with s(1) r show ?case by auto
qed (simp add: boot_harts_def)

text \<open>A number of rounds of the scheduler.\<close>

fun rounds :: "nat \<Rightarrow> cpu list \<Rightarrow> bus \<Rightarrow> unit res \<times> (cpu list \<times> bus)" where
  "rounds 0 cs b = (Inr (), (cs, b))"
| "rounds (Suc m) cs b =
     (case round_robin cs b of (Inl e, s) \<Rightarrow> (Inl e, s) | (Inr _, s) \<Rightarrow> rounds m (fst s) (snd s))"

lemma boot_rounds:
  assumes "k + m \<le> 6" "boot_harts k 0 cs" "boot_bus (length cs) b" "length cs < 2 ^ 64"
  shows "\<exists>cs' b'. rounds m cs b = (Inr (), (cs', b')) \<and> length cs' = length cs \<and> boot_harts (k + m) 0 cs'"
  using assms
proof (induction m arbitrary: k cs b)
  case (Suc m)
  then have "k < 6" by simp
  from boot_round [OF this Suc.prems(2,3) _ Suc.prems(4)] obtain cs' b' where
    r: "round_robin cs b = (Inr (), (cs', b'))" "length cs' = length cs" "boot_harts (Suc k) 0 cs'" "boot_bus (length cs) b'" by auto
  then show ?case using Suc.IH [of "Suc k" cs' b'] Suc.prems by simp
qed simp

lemma boot_start:
  assumes "xv6_fits program address" "0 < ncpu" "ncpu \<le> 32" "reader_ok inp"
  shows "boot_harts 0 0 (map (\<lambda>i. xv6_cpu (of_nat i)) [0..<unat ncpu])"
    "boot_bus (unat ncpu) (xv6_built (xv6_heap h out inp img (unat ncpu)) program address)"
proof -
  have "boot_hart i (boot_regs i 0) (boot_pc 0) (xv6_cpu i)" for i
    by (simp add: boot_hart_def xv6_cpu_def boot_pc_def cpu_new_csrs) (simp add: cpu_new_def registers_new_def)
  then show "boot_harts 0 0 (map (\<lambda>i. xv6_cpu (of_nat i)) [0..<unat ncpu])" by (simp add: boot_harts_def)
  note fits = assms(1) [unfolded xv6_fits_def]
  let ?sz = "page_align (of_nat (length program))"
  have sz: "unat ?sz \<le> length program + 0xfff" using fits by (intro page_align_bounds; simp)+
  have "unat (address + ?sz) = unat address + unat ?sz" using fits sz by (intro unat_add_no_wrap) simp
  then have "0x2000 \<le> address" "0x2000 \<le> address + ?sz" using fits by (simp_all add: word_le_nat_alt)
  then show "boot_bus (unat ncpu) (xv6_built (xv6_heap h out inp img (unat ncpu)) program address)"
    using assms(4) length_boot_image
    by (simp add: boot_bus_def xv6_built_def Let_def xv6_heap_def clint_new_def uart_new_def plic_new_def register_irq_def
        ram_with_content_def)
qed

text \<open>
  C14: the boot ROM. On a freshly built machine with 1 to 32 harts, whose non-empty program is loaded
  above the devices (at 0x10002000 or higher) and fits there with its stack, and whose UART reader
  keeps the contract of \<open>Read::read\<close> (no more bytes than the buffer holds), six rounds of the scheduler take
  every hart without a fault through the boot ROM: hart \<open>i\<close> is then in machine mode at 0x80000000
  with its number in a0, 0x87000000 in a1 and the end of the ROM in a2, whatever the timer, the
  UART and pending interrupts do meanwhile, and wherever above the devices the program was loaded.
\<close>

theorem boot_rom_hands_over:
  assumes "xv6_fits program address" "0 < ncpu" "ncpu \<le> 32" "reader_ok inp"
  shows "\<exists>e cs b. xv6_new_smp h program address out inp img ncpu = Inr e
    \<and> rounds 6 (emu_cpus e) (emu_bus e) = (Inr (), (cs, b)) \<and> length cs = unat ncpu
    \<and> (\<forall>i < unat ncpu. pc (cs ! i) = 0x80000000 \<and> mode (cs ! i) = PRIV_M \<and> hartid (cs ! i) = of_nat i
         \<and> reg_array (regs (cs ! i)) 10 = of_nat i \<and> reg_array (regs (cs ! i)) 11 = 0x87000000
         \<and> reg_array (regs (cs ! i)) 12 = 0x1028)"
proof -
  let ?cs = "map (\<lambda>i. xv6_cpu (of_nat i)) [0..<unat ncpu]"
  note S = boot_start(1) [OF assms] boot_start(2) [OF assms, of h out img]
  have l: "length ?cs = unat ncpu" "unat ncpu < 2 ^ 64" using unsigned_less [of ncpu, where 'a = nat] by simp_all
  obtain cs b where r: "rounds 6 ?cs (xv6_built (xv6_heap h out inp img (unat ncpu)) program address) = (Inr (), (cs, b))"
    "length cs = unat ncpu" "boot_harts 6 0 cs"
    using boot_rounds [of 0 6 ?cs "xv6_built (xv6_heap h out inp img (unat ncpu)) program address"] S l by auto
  have "boot_hart (of_nat i) (boot_regs (of_nat i) 6) 0x80000000 (cs ! i)" if "i < unat ncpu" for i
    using r(2,3) that by (auto simp: boot_harts_def boot_pc_def)
  moreover have "boot_regs i 6 10 = i" "boot_regs i 6 11 = 0x87000000" "boot_regs i 6 12 = 0x1028" for i
    by (simp_all add: eval_nat_numeral)
  ultimately show ?thesis
    using xv6_new_smp_builds [OF assms(1-3), of h out inp img] r(1,2) by (auto simp: boot_hart_def)
qed

theorem boot_rom_hands_over_witness:
  "\<exists>e cs b. xv6_new_smp empty_heap [0x13, 0, 0, 0] 0x90000000 None None None 2 = Inr e
     \<and> rounds 6 (emu_cpus e) (emu_bus e) = (Inr (), (cs, b)) \<and> pc (cs ! 1) = 0x80000000 \<and> reg_array (regs (cs ! 1)) 10 = 1"
  using boot_rom_hands_over [of "[0x13, 0, 0, 0]" "0x90000000" 2 None empty_heap None None]
  by (fastforce simp: xv6_fits_def reader_ok_def)

end
