(* ===== verification/Virtio_Queue.thy ===== *)
theory Virtio_Queue
  imports Bus
begin

text \<open>
  The VirtIO queue protocol end to end: what a driver lays out in memory before it notifies the
  device (the available ring, a chain of three descriptors, the request header) and what it finds
  afterwards (the data, the status byte, the used ring, the interrupt).
\<close>

section \<open>What the driver lays out\<close>

text \<open>Memory is seen through \<open>H a n x\<close>: the \<open>n\<close> bytes at \<open>a\<close> can be accessed and hold \<open>x\<close>.\<close>

type_synonym contents = "u64 \<Rightarrow> u8 \<Rightarrow> u64 \<Rightarrow> bool"

definition desc_in :: "contents \<Rightarrow> u64 \<Rightarrow> u16 \<Rightarrow> desc \<Rightarrow> u16 \<Rightarrow> bool" where
  "desc_in H base idx d nxt \<longleftrightarrow>
     (let off = base + ucast idx * 16 in
      H off 8 (fst d) \<and> H (off + 8) 4 (ucast (fst (snd d))) \<and> H (off + 12) 2 (ucast (snd (snd d)))
      \<and> H (off + 14) 2 (ucast nxt))"

text \<open>A chain of three: header, data and status descriptor.\<close>

definition chain_in :: "contents \<Rightarrow> u64 \<Rightarrow> u16 \<Rightarrow> u64 \<Rightarrow> u64 \<Rightarrow> u32 \<Rightarrow> u64 \<Rightarrow> bool" where
  "chain_in H base head hdr data len st \<longleftrightarrow>
     (\<exists>i j k l0 f0 f1 l2 f2. distinct [head, i, j]
        \<and> desc_in H base head (hdr, l0, f0) i \<and> bit f0 0
        \<and> desc_in H base i (data, len, f1) j \<and> bit f1 0
        \<and> desc_in H base j (st, l2, f2) k \<and> \<not> bit f2 0)"

definition apart :: "u64 \<times> nat \<Rightarrow> u64 \<times> nat \<Rightarrow> bool" where
  "apart r s \<longleftrightarrow> unat (fst r) + snd r \<le> unat (fst s) \<or> unat (fst s) + snd s \<le> unat (fst r)"

definition used_elem :: "virtio_blk \<Rightarrow> u16 \<Rightarrow> u64" where
  "used_elem v used_idx = used_addr v + 4 + (ucast used_idx mod ucast (queue_num v)) * 8"

text \<open>One request is outstanding on queue \<open>q\<close>: the available index is one ahead of the last one
  served.\<close>

definition one_request ::
  "contents \<Rightarrow> virtio_blk \<Rightarrow> u32 \<Rightarrow> u16 \<Rightarrow> u16 \<Rightarrow> u16 \<Rightarrow> bool" where
  "one_request H v q lst used_idx head \<longleftrightarrow> queue_ready v \<noteq> 0 \<and> queue_num v \<noteq> 0
     \<and> (last_avail_idx v q = Some lst \<or> last_avail_idx v q = None \<and> lst = used_idx)
     \<and> H (avail_addr v + 2) 2 (ucast (lst + 1)) \<and> H (used_addr v + 2) 2 (ucast used_idx)
     \<and> H (avail_addr v + 4 + (ucast lst mod ucast (queue_num v)) * 2) 2 (ucast head)"

text \<open>What the device writes: data, status, the two halves of the used element, the used index.\<close>

definition device_writes :: "virtio_blk \<Rightarrow> u16 \<Rightarrow> u64 \<Rightarrow> u32 \<Rightarrow> u64 \<Rightarrow> (u64 \<times> nat) list" where
  "device_writes v used_idx data len st =
     [(data, unat len), (st, 1), (used_elem v used_idx, 4), (used_elem v used_idx + 4, 4), (used_addr v + 2, 2)]"

section \<open>Reading the chain\<close>

lemma ucast_word_roundtrip:
  "(ucast (ucast x :: u64) :: u16) = x" "(ucast (ucast y :: u64) :: u32) = y"
  for x :: u16 and y :: u32
  by (rule bit_word_eqI, auto simp: bit_simps dest: bit_imp_le_length)+

lemma take_bit_of_ucast: "take_bit 32 (ucast x :: u64) = ucast x" "take_bit 16 (ucast x :: u64) = ucast x" for x :: u16
  by (rule bit_word_eqI, auto simp: bit_simps dest: bit_imp_le_length)+

lemma and_next: "(f :: u16) AND VIRTQ_DESC_F_NEXT \<noteq> 0 \<longleftrightarrow> bit f 0"
  by (simp add: and_one_eq bit_0 odd_iff_mod_2_eq_one)

context byte_memory
begin

definition holds :: "'m \<Rightarrow> contents" where
  "holds m a n x \<longleftrightarrow> valid m a n \<and> fst (mem_read a n m) = Inr x"

lemma holds_read: "holds m a n x \<Longrightarrow> mem_read a n m = (Inr x, m)"
  using read_returns by (fastforce simp: holds_def)

lemma store:
  assumes "valid m a n"
  shows "\<exists>m'. mem_write a n x m = (Inr (), m') \<and> holds m' a n (take_bit (8 * unat n) x)
    \<and> (\<forall>b k. valid m' b k = valid m b k)
    \<and> (\<forall>b k. valid m b k \<and> apart (a, unat n) (b, unat k) \<longrightarrow> fst (mem_read b k m') = fst (mem_read b k m))"
  using write_eq [OF assms, of x] write_valid [OF assms, of x] read_same [OF assms, of x] read_other [OF assms, of _ _ x] assms
  by (intro exI [of _ "snd (mem_write a n x m)"]) (auto simp: holds_def apart_def)

lemma read_desc_in: "desc_in (holds m) base idx d nxt \<Longrightarrow> read_desc mem_read base idx m = (Inr (d, nxt), m)"
  by (cases d) (auto simp: desc_in_def Let_def read_desc_def and_then_def ok_def ucast_word_roundtrip dest!: holds_read)

lemma chain_in_reads:
  assumes "chain_in (holds m) base head hdr data len st"
  shows "\<exists>l0 f0 f1 l2 f2. chain_loop mem_read base head {} [] m = (Inr [(hdr, l0, f0), (data, len, f1), (st, l2, f2)], m)"
proof -
  obtain i j k l0 f0 f1 l2 f2 where c: "distinct [head, i, j]" "bit f0 0" "bit f1 0" "\<not> bit f2 0"
    "desc_in (holds m) base head (hdr, l0, f0) i" "desc_in (holds m) base i (data, len, f1) j"
    "desc_in (holds m) base j (st, l2, f2) k" using assms unfolding chain_in_def by blast
  note r = c(5-7) [THEN read_desc_in]
  have "chain_loop mem_read base j {i, head} [(hdr, l0, f0), (data, len, f1)] m
      = (Inr [(hdr, l0, f0), (data, len, f1), (st, l2, f2)], m)"
    using c(1,4) r(3) and_next [of f2] by (subst chain_loop.simps) (auto simp: and_then_def ok_def)
  then have "chain_loop mem_read base i {head} [(hdr, l0, f0)] m = (Inr [(hdr, l0, f0), (data, len, f1), (st, l2, f2)], m)"
    using c(1,3) r(2) and_next [of f1] by (subst chain_loop.simps) (auto simp: and_then_def)
  then have "chain_loop mem_read base head {} [] m = (Inr [(hdr, l0, f0), (data, len, f1), (st, l2, f2)], m)"
    using c(2) r(1) and_next [of f0] by (subst chain_loop.simps) (auto simp: and_then_def)
  then show ?thesis by blast
qed

text \<open>Both request types at once: what the device does to the disk and the data buffer.\<close>

lemma block_request_serves:
  assumes "holds m hdr 4 (ucast t)" "holds m (hdr + 8) 8 s" "t \<in> {VIRTIO_BLK_T_IN, VIRTIO_BLK_T_OUT}"
    and "unat s * 512 + unat len < 2 ^ 63" "buffer m data (unat len)"
  shows "\<exists>v' m'. block_request mem_read mem_write hdr data len (v, m) = (Inr (), (v', m'))
    \<and> v'\<lparr>disk := disk v\<rparr> = v \<and> (\<forall>b k. valid m' b k = valid m b k)
    \<and> (\<forall>b k. valid m b k \<and> apart (data, unat len) (b, unat k) \<longrightarrow> fst (mem_read b k m') = fst (mem_read b k m))
    \<and> (t = VIRTIO_BLK_T_IN \<longrightarrow> (\<forall>k. disk_byte v' k = disk_byte v k)
         \<and> (\<forall>i < unat len. holds m' (data + of_nat i) 1 (ucast (disk_byte v (unat s * 512 + i)))))
    \<and> (t = VIRTIO_BLK_T_OUT \<longrightarrow> m' = m
         \<and> (\<forall>i < unat len. \<exists>x. holds m (data + of_nat i) 1 x \<and> disk_byte v' (unat s * 512 + i) = ucast x)
         \<and> (\<forall>k. k < unat s * 512 \<or> unat s * 512 + unat len \<le> k \<longrightarrow> disk_byte v' k = disk_byte v k))"
proof (cases "t = VIRTIO_BLK_T_IN")
  case True
  then have "header m hdr VIRTIO_BLK_T_IN s" using assms(1,2) by (auto simp: header_def dest!: holds_read)
  from block_read_copies [OF this assms(4,5), of v] obtain v' m' where r:
    "block_request mem_read mem_write hdr data len (v, m) = (Inr (), (v', m'))"
    "\<forall>k. disk_byte v' k = disk_byte v k" "v'\<lparr>disk := disk v\<rparr> = v" "\<forall>b k. valid m' b k = valid m b k"
    "\<forall>i < unat len. fst (mem_read (data + of_nat i) 1 m') = Inr (ucast (disk_byte v (unat s * 512 + i)))"
    "\<forall>b k. valid m b k \<and> (unat b + unat k \<le> unat data \<or> unat data + unat len \<le> unat b)
         \<longrightarrow> fst (mem_read b k m') = fst (mem_read b k m)" by blast
  have "\<forall>i < unat len. valid m (data + of_nat i) 1" using assms(5) by (simp add: buffer_def)
  with r True show ?thesis by (intro exI [of _ v'] exI [of _ m']) (auto simp: holds_def apart_def)
next
  case False
  then have t: "t = VIRTIO_BLK_T_OUT" using assms(3) by simp
  then have "header m hdr VIRTIO_BLK_T_OUT s"
    using assms(1,2) by (auto simp: header_def dest!: holds_read)
  from block_write_stores [OF this assms(4,5), of v] obtain v' where r:
    "block_request mem_read mem_write hdr data len (v, m) = (Inr (), (v', m))" "v'\<lparr>disk := disk v\<rparr> = v"
    "\<forall>i < unat len. \<exists>x. mem_read (data + of_nat i) 1 m = (Inr x, m) \<and> disk_byte v' (unat s * 512 + i) = ucast x"
    "\<forall>k. k < unat s * 512 \<or> unat s * 512 + unat len \<le> k \<longrightarrow> disk_byte v' k = disk_byte v k" by blast
  have "\<forall>i < unat len. valid m (data + of_nat i) 1" using assms(5) by (simp add: buffer_def)
  with r(3) have "\<forall>i < unat len. \<exists>x. holds m (data + of_nat i) 1 x \<and> disk_byte v' (unat s * 512 + i) = ucast x"
    unfolding holds_def by fastforce
  with r t show ?thesis by (intro exI [of _ v'] exI [of _ m]) simp
qed

section \<open>Serving a notification\<close>

text \<open>The four stores after the request, on a memory where they and the data are pairwise apart.\<close>

lemma completion_stores:
  assumes "valid m st 1" "valid m e 4" "valid m (e + 4) 4" "valid m u 2"
    and "sorted_wrt apart [(st, 1), (e, 4), (e + 4, 4), (u, 2)]"
  shows "\<exists>m'. and_then (mem_write st 1 0) (\<lambda>_. and_then (mem_write e 4 (ucast (head :: u16))) (\<lambda>_.
       and_then (mem_write (e + 4) 4 (ucast (0 :: u32))) (\<lambda>_. mem_write u 2 (ucast idx)))) m = (Inr (), m')
    \<and> holds m' st 1 0 \<and> holds m' e 4 (ucast head) \<and> holds m' (e + 4) 4 0 \<and> holds m' u 2 (ucast (idx :: u16))
    \<and> (\<forall>b k. valid m b k \<and> apart (st, 1) (b, unat k) \<and> apart (e, 4) (b, unat k) \<and> apart (e + 4, 4) (b, unat k)
         \<and> apart (u, 2) (b, unat k) \<longrightarrow> valid m' b k \<and> fst (mem_read b k m') = fst (mem_read b k m))"
proof -
  have sw: "apart r s \<longleftrightarrow> apart s r" for r s by (auto simp: apart_def)
  obtain m1 where 1: "mem_write st 1 0 m = (Inr (), m1)" "holds m1 st 1 0" "\<forall>b k. valid m1 b k = valid m b k"
    "\<forall>b k. valid m b k \<and> apart (st, 1) (b, unat k) \<longrightarrow> fst (mem_read b k m1) = fst (mem_read b k m)"
    using store [OF assms(1), of 0] by auto
  obtain m2 where 2: "mem_write e 4 (ucast head) m1 = (Inr (), m2)" "holds m2 e 4 (ucast head)" "\<forall>b k. valid m2 b k = valid m b k"
    "\<forall>b k. valid m b k \<and> apart (e, 4) (b, unat k) \<longrightarrow> fst (mem_read b k m2) = fst (mem_read b k m1)"
    using store [of m1 e 4 "ucast head"] assms(2) 1(3) by (auto simp: take_bit_of_ucast)
  obtain m3 where 3: "mem_write (e + 4) 4 0 m2 = (Inr (), m3)" "holds m3 (e + 4) 4 0" "\<forall>b k. valid m3 b k = valid m b k"
    "\<forall>b k. valid m b k \<and> apart (e + 4, 4) (b, unat k) \<longrightarrow> fst (mem_read b k m3) = fst (mem_read b k m2)"
    using store [of m2 "e + 4" 4 0] assms(3) 2(3) by auto
  obtain m4 where 4: "mem_write u 2 (ucast idx) m3 = (Inr (), m4)" "holds m4 u 2 (ucast idx)" "\<forall>b k. valid m4 b k = valid m b k"
    "\<forall>b k. valid m b k \<and> apart (u, 2) (b, unat k) \<longrightarrow> fst (mem_read b k m4) = fst (mem_read b k m3)"
    using store [of m3 u 2 "ucast idx"] assms(4) 3(3) by (auto simp: take_bit_of_ucast)
  have "holds m4 st 1 0"
    using 1(2) 2(4) 3(4) 4(3,4) assms(1,5) sw by (simp add: holds_def)
  moreover have "holds m4 e 4 (ucast head)" "holds m4 (e + 4) 4 0"
    using 2(2) 3(2,4) 4(3,4) assms(2,3,5) sw by (simp_all add: holds_def)
  moreover have "and_then (mem_write st 1 0) (\<lambda>_. and_then (mem_write e 4 (ucast head)) (\<lambda>_.
      and_then (mem_write (e + 4) 4 (ucast (0 :: u32))) (\<lambda>_. mem_write u 2 (ucast idx)))) m = (Inr (), m4)"
    by (simp add: and_then_def 1(1) 2(1) 3(1) 4(1))
  ultimately show ?thesis using 1(4) 2(4) 3(4) 4(2-4) by (intro exI [of _ m4]) simp
qed

lemma queue_round_serves:
  assumes "one_request (holds m) v q lst used_idx head" "chain_in (holds m) (desc_addr v) head hdr data len st"
    and "block_request mem_read mem_write hdr data len (v, m) = (Inr (), (v1, m1))"
    and "and_then (mem_write st 1 0) (\<lambda>_. and_then (mem_write (used_elem v used_idx) 4 (ucast head)) (\<lambda>_.
       and_then (mem_write (used_elem v used_idx + 4) 4 (ucast (0 :: u32))) (\<lambda>_.
       mem_write (used_addr v + 2) 2 (ucast (used_idx + 1))))) m1 = (Inr (), m2)"
  shows "queue_round mem_read mem_write (desc_addr v) (avail_addr v) (used_addr v) lst used_idx (v, m) = (Inr (), (v1, m2))"
proof -
  obtain l0 f0 f1 l2 f2 where c: "chain_loop mem_read (desc_addr v) head {} [] m = (Inr [(hdr, l0, f0), (data, len, f1), (st, l2, f2)], m)"
    using chain_in_reads [OF assms(2)] by blast
  have h: "mem_read (avail_addr v + 4 + (ucast lst mod ucast (queue_num v)) * 2) 2 m = (Inr (ucast head), m)"
    using assms(1) by (auto simp: one_request_def dest: holds_read)
  have w: "and_then (on_snd (mem_write st 1 0)) (\<lambda>_. and_then (on_snd (mem_write (used_elem v used_idx) 4 (ucast head))) (\<lambda>_.
       and_then (on_snd (mem_write (used_elem v used_idx + 4) 4 (ucast (0 :: u32)))) (\<lambda>_.
       on_snd (mem_write (used_addr v + 2) 2 (ucast (used_idx + 1)))))) (v1, m1) = (Inr (), (v1, m2))"
    using assms(4) by (auto simp: and_then_def on_snd_def split: prod.splits sum.splits)
  have "process_descriptor_chain mem_read mem_write (desc_addr v) head (v, m) =
      and_then (on_snd (mem_write st 1 0)) (\<lambda>_. ok 0) (v1, m1)"
    by (simp add: process_descriptor_chain_def and_then_def on_snd_def c assms(3))
  then have "queue_round mem_read mem_write (desc_addr v) (avail_addr v) (used_addr v) lst used_idx (v, m)
      = and_then (on_snd (mem_write st 1 0)) (\<lambda>_. and_then (on_snd (mem_write (used_elem v used_idx) 4 (ucast head))) (\<lambda>_.
          and_then (on_snd (mem_write (used_elem v used_idx + 4) 4 (ucast (0 :: u32)))) (\<lambda>_.
          on_snd (mem_write (used_addr v + 2) 2 (ucast (used_idx + 1)))))) (v1, m1)"
    by (simp add: queue_round_def and_then_def gets_def on_snd_def h ucast_word_roundtrip Let_def used_elem_def [symmetric] ok_def
        split: prod.split sum.split)
  with w show ?thesis by simp
qed

lemma notify_runs_round:
  assumes "one_request (holds m) v q lst used_idx head"
    and "queue_round mem_read mem_write (desc_addr v) (avail_addr v) (used_addr v) lst used_idx (v, m) = (Inr (), (v1, m1))"
  shows "virtio_write mem_read mem_write QUEUE_NOTIFY 4 (ucast q) (v, m) =
    (Inr (), (v1\<lparr>last_avail_idx := (last_avail_idx v1)(q \<mapsto> lst + 1), interrupt_status := interrupt_status v1 OR 1\<rparr>, m1))"
proof -
  note O = assms(1) [unfolded one_request_def]
  have r: "mem_read (avail_addr v + 2) 2 m = (Inr (ucast (lst + 1)), m)" "mem_read (used_addr v + 2) 2 m = (Inr (ucast used_idx), m)"
    using O holds_read by blast+
  have "queue_loop mem_read mem_write (desc_addr v) (avail_addr v) (used_addr v) (lst + 1) lst used_idx (v, m) = (Inr (lst + 1), (v1, m1))"
    using queue_loop.simps [of mem_read mem_write "desc_addr v" "avail_addr v" "used_addr v" "lst + 1" "lst + 1" "used_idx + 1"]
    by (subst queue_loop.simps) (simp add: and_then_def assms(2) ok_def)
  moreover have "(case last_avail_idx v q of None \<Rightarrow> ucast (ucast used_idx :: u64) | Some l \<Rightarrow> l) = lst"
    using O by (auto simp: ucast_word_roundtrip)
  ultimately have "process_queue mem_read mem_write q (v, m) = queue_done q (lst + 1) (v1, m1)"
    using O r by (simp add: process_queue_def serve_queue_def and_then_def on_snd_def Let_def ucast_word_roundtrip)
  then show ?thesis by (simp add: virtio_write_def Let_def ucast_word_roundtrip queue_done_def modify_def)
qed

lemma notify_serves:
  assumes "one_request (holds m) v q lst used_idx head" "chain_in (holds m) (desc_addr v) head hdr data len st"
    and "holds m hdr 4 (ucast t)" "holds m (hdr + 8) 8 s" "t \<in> {VIRTIO_BLK_T_IN, VIRTIO_BLK_T_OUT}"
    and "unat s * 512 + unat len < 2 ^ 63" "buffer m data (unat len)"
    and "valid m st 1" "valid m (used_elem v used_idx) 4" "valid m (used_elem v used_idx + 4) 4"
    and "sorted_wrt apart (device_writes v used_idx data len st)"
  shows "\<exists>v' m'. virtio_write mem_read mem_write QUEUE_NOTIFY 4 (ucast q) (v, m) = (Inr (), (v', m'))
    \<and> holds m' st 1 0 \<and> holds m' (used_elem v used_idx) 4 (ucast head) \<and> holds m' (used_elem v used_idx + 4) 4 0
    \<and> holds m' (used_addr v + 2) 2 (ucast (used_idx + 1))
    \<and> v'\<lparr>disk := disk v\<rparr> = v\<lparr>last_avail_idx := (last_avail_idx v)(q \<mapsto> lst + 1), interrupt_status := interrupt_status v OR 1\<rparr>
    \<and> (t = VIRTIO_BLK_T_IN \<longrightarrow> (\<forall>k. disk_byte v' k = disk_byte v k)
         \<and> (\<forall>i < unat len. holds m' (data + of_nat i) 1 (ucast (disk_byte v (unat s * 512 + i)))))
    \<and> (t = VIRTIO_BLK_T_OUT \<longrightarrow>
         (\<forall>i < unat len. \<exists>x. holds m (data + of_nat i) 1 x \<and> disk_byte v' (unat s * 512 + i) = ucast x)
         \<and> (\<forall>k. k < unat s * 512 \<or> unat s * 512 + unat len \<le> k \<longrightarrow> disk_byte v' k = disk_byte v k))"
proof -
  obtain v1 m1 where b: "block_request mem_read mem_write hdr data len (v, m) = (Inr (), (v1, m1))"
    "v1\<lparr>disk := disk v\<rparr> = v" "\<forall>b k. valid m1 b k = valid m b k"
    and rd: "t = VIRTIO_BLK_T_IN \<longrightarrow> (\<forall>k. disk_byte v1 k = disk_byte v k)
         \<and> (\<forall>i < unat len. holds m1 (data + of_nat i) 1 (ucast (disk_byte v (unat s * 512 + i))))"
    and wr: "t = VIRTIO_BLK_T_OUT \<longrightarrow> m1 = m
         \<and> (\<forall>i < unat len. \<exists>x. holds m (data + of_nat i) 1 x \<and> disk_byte v1 (unat s * 512 + i) = ucast x)
         \<and> (\<forall>k. k < unat s * 512 \<or> unat s * 512 + unat len \<le> k \<longrightarrow> disk_byte v1 k = disk_byte v k)"
    using block_request_serves [OF assms(3-7), of v] by blast
  have sep: "sorted_wrt apart [(st, 1), (used_elem v used_idx, 4), (used_elem v used_idx + 4, 4), (used_addr v + 2, 2)]"
    and d: "\<And>r. r \<in> set [(st, 1), (used_elem v used_idx, 4), (used_elem v used_idx + 4, 4), (used_addr v + 2, 2)] \<Longrightarrow> apart (data, unat len) r"
    using assms(11) by (auto simp: device_writes_def)
  have "valid m (used_addr v + 2) 2" using assms(1) by (simp add: one_request_def holds_def)
  with completion_stores [of m1 st "used_elem v used_idx" "used_addr v + 2" head "used_idx + 1"] assms(8-10) b(3) sep
  obtain m2 where w: "and_then (mem_write st 1 0) (\<lambda>_. and_then (mem_write (used_elem v used_idx) 4 (ucast head)) (\<lambda>_.
       and_then (mem_write (used_elem v used_idx + 4) 4 (ucast (0 :: u32))) (\<lambda>_.
       mem_write (used_addr v + 2) 2 (ucast (used_idx + 1))))) m1 = (Inr (), m2)"
    "holds m2 st 1 0" "holds m2 (used_elem v used_idx) 4 (ucast head)" "holds m2 (used_elem v used_idx + 4) 4 0"
    "holds m2 (used_addr v + 2) 2 (ucast (used_idx + 1))"
    "\<forall>b k. valid m1 b k \<and> apart (st, 1) (b, unat k) \<and> apart (used_elem v used_idx, 4) (b, unat k)
       \<and> apart (used_elem v used_idx + 4, 4) (b, unat k) \<and> apart (used_addr v + 2, 2) (b, unat k)
       \<longrightarrow> valid m2 b k \<and> fst (mem_read b k m2) = fst (mem_read b k m1)" by auto
  have keep: "holds m2 (data + of_nat i) 1 x" if "i < unat len" "holds m1 (data + of_nat i) 1 x" for i x
  proof -
    have "apart r (data + of_nat i, 1)" if "apart (data, unat len) r" for r
      using that \<open>i < unat len\<close> assms(7) unat_offset [of data i] by (auto simp: apart_def buffer_def)
    then show ?thesis using w(6) that(2) d by (simp add: holds_def)
  qed
  let ?v = "v1\<lparr>last_avail_idx := (last_avail_idx v1)(q \<mapsto> lst + 1), interrupt_status := interrupt_status v1 OR 1\<rparr>"
  have "?v\<lparr>disk := disk v\<rparr> = (v1\<lparr>disk := disk v\<rparr>)\<lparr>last_avail_idx := (last_avail_idx (v1\<lparr>disk := disk v\<rparr>))(q \<mapsto> lst + 1),
      interrupt_status := interrupt_status (v1\<lparr>disk := disk v\<rparr>) OR 1\<rparr>" by simp
  then have v: "?v\<lparr>disk := disk v\<rparr> = v\<lparr>last_avail_idx := (last_avail_idx v)(q \<mapsto> lst + 1), interrupt_status := interrupt_status v OR 1\<rparr>"
    unfolding b(2) .
  have "disk_byte ?v k = disk_byte v1 k" for k by (simp add: disk_byte_def)
  with notify_runs_round [OF assms(1) queue_round_serves [OF assms(1,2) b(1) w(1)]] v rd wr w(2-5) keep show ?thesis
    by (intro exI [of _ ?v] exI [of _ m2]) simp
qed

end

section \<open>On the bus\<close>

definition ram_holds :: "bus \<Rightarrow> contents" where
  "ram_holds b a n x \<longleftrightarrow> bus_ram_valid b a n \<and> fst (bus_read a n b) = Inr x"

lemma ram_holds_dma: "ram_holds = dma_mem.holds"
  by (simp add: fun_eq_iff ram_holds_def dma_mem.holds_def)

lemma ram_holds_cong:
  assumes "ram_range b = ram_range b'" "bus_ram b = bus_ram b'"
  shows "ram_holds b = ram_holds b'"
proof -
  have v: "bus_ram_valid b = bus_ram_valid b'" using assms by (simp add: bus_ram_valid_def fun_eq_iff)
  have "fst (bus_read a n b) = fst (bus_read a n b')" if "bus_ram_valid b a n" for a n
    using that v assms by (simp add: bus_read_ram on_field_eqs)
  then show ?thesis by (auto simp: fun_eq_iff ram_holds_def v)
qed

lemma ram_holds_cell: "ram_holds (set_virtio_cell i c b) = ram_holds b" "bus_ram_valid (set_virtio_cell i c b) = bus_ram_valid b"
  by (rule ram_holds_cong) (simp_all add: set_virtio_cell_def bus_ram_valid_def fun_eq_iff)

text \<open>An address that reaches register \<open>off\<close> of the device and nothing else.\<close>

definition virtio_register :: "bus \<Rightarrow> u64 \<Rightarrow> u64 \<Rightarrow> bool" where
  "virtio_register b a off \<longleftrightarrow> contains (virtio_range b) a 4 \<and> a - range_start (virtio_range b) = off
     \<and> \<not> contains (ram_range b) a 4 \<and> \<not> contains (stack_range b) a 4 \<and> \<not> contains (bootloader_range b) a 4
     \<and> \<not> contains (clint_range b) a 4 \<and> \<not> contains (uart_range b) a 4 \<and> \<not> contains (plic_range b) a 4"

lemma bus_write_register:
  assumes "virtio_register b a off"
  shows "bus_write a 4 x b = on_virtio (virtio_write bus_read bus_dma_write off 4 x) b"
  using assms by (simp add: virtio_register_def bus_write_def bus_write_with_def write_mmio_with_def)

text \<open>
  C13: a disk request from notification to completion. With one block request outstanding on queue
  \<open>q\<close> of a ready device (the available ring, its chain of header, data and status descriptor and the
  request header in main memory, the places the device writes apart from each other, the data
  buffer not wrapping and the end of the sectors below \<open>2 ^ 63\<close>), the guest's store of \<open>q\<close> to the
  notify register succeeds. Afterwards the status byte is 0, the used ring holds
  the chain's head and its index is one higher, the device remembers the request as served and its
  interrupt line, as the interrupt controller reads it, is up. A read request has copied the sector
  to the data buffer and left the disk as it was; a write request has stored the buffer in the
  sector and changed no other byte of the disk.
\<close>

theorem queue_notify_serves:
  assumes "virtio_register b a QUEUE_NOTIFY" "bus_virtio b = Some i" "virtios (heap b) i = Available v"
    and "one_request (ram_holds b) v q lst used_idx head" "chain_in (ram_holds b) (desc_addr v) head hdr data len st"
    and "ram_holds b hdr 4 (ucast t)" "ram_holds b (hdr + 8) 8 s" "t \<in> {VIRTIO_BLK_T_IN, VIRTIO_BLK_T_OUT}"
    and "unat s * 512 + unat len < 2 ^ 63" "unat data + unat len \<le> 2 ^ 64" "\<forall>k < unat len. bus_ram_valid b (data + of_nat k) 1"
    and "bus_ram_valid b st 1" "bus_ram_valid b (used_elem v used_idx) 4" "bus_ram_valid b (used_elem v used_idx + 4) 4"
    and "sorted_wrt apart (device_writes v used_idx data len st)"
  shows "\<exists>b' v'. bus_write a 4 (ucast q) b = (Inr (), b') \<and> virtios (heap b') i = Available v'
    \<and> ram_holds b' st 1 0 \<and> ram_holds b' (used_elem v used_idx) 4 (ucast head)
    \<and> ram_holds b' (used_addr v + 2) 2 (ucast (used_idx + 1))
    \<and> last_avail_idx v' q = Some (lst + 1) \<and> irq_status (heap b') (Virtio_source i) = Inr (interrupt_status v OR 1)
    \<and> (t = VIRTIO_BLK_T_IN \<longrightarrow> (\<forall>k. disk_byte v' k = disk_byte v k)
         \<and> (\<forall>k < unat len. ram_holds b' (data + of_nat k) 1 (ucast (disk_byte v (unat s * 512 + k)))))
    \<and> (t = VIRTIO_BLK_T_OUT \<longrightarrow>
         (\<forall>k < unat len. \<exists>x. ram_holds b (data + of_nat k) 1 x \<and> disk_byte v' (unat s * 512 + k) = ucast x)
         \<and> (\<forall>k. k < unat s * 512 \<or> unat s * 512 + unat len \<le> k \<longrightarrow> disk_byte v' k = disk_byte v k))"
proof -
  let ?b = "set_virtio_cell i Borrowed_mut b"
  note C = ram_holds_cell [of i Borrowed_mut b]
  have "dma_mem.buffer ?b data (unat len)" using assms(10,11) by (simp add: dma_mem.buffer_def C)
  with dma_mem.notify_serves [of ?b v q lst used_idx head hdr data len st t s] assms(4-9,12-15)
  obtain v' b' where n: "virtio_write bus_read bus_dma_write QUEUE_NOTIFY 4 (ucast q) (v, ?b) = (Inr (), (v', b'))"
    "ram_holds b' st 1 0" "ram_holds b' (used_elem v used_idx) 4 (ucast head)"
    "ram_holds b' (used_addr v + 2) 2 (ucast (used_idx + 1))"
    and v': "v'\<lparr>disk := disk v\<rparr> = v\<lparr>last_avail_idx := (last_avail_idx v)(q \<mapsto> lst + 1), interrupt_status := interrupt_status v OR 1\<rparr>"
    and eff: "t = VIRTIO_BLK_T_IN \<longrightarrow> (\<forall>k. disk_byte v' k = disk_byte v k)
         \<and> (\<forall>k < unat len. ram_holds b' (data + of_nat k) 1 (ucast (disk_byte v (unat s * 512 + k))))"
    "t = VIRTIO_BLK_T_OUT \<longrightarrow>
         (\<forall>k < unat len. \<exists>x. ram_holds b (data + of_nat k) 1 x \<and> disk_byte v' (unat s * 512 + k) = ucast x)
         \<and> (\<forall>k. k < unat s * 512 \<or> unat s * 512 + unat len \<le> k \<longrightarrow> disk_byte v' k = disk_byte v k)"
    unfolding ram_holds_dma [symmetric] C by blast
  have "last_avail_idx v' q = Some (lst + 1)" "interrupt_status v' = interrupt_status v OR 1"
    using arg_cong [OF v', of last_avail_idx] arg_cong [OF v', of interrupt_status] by simp_all
  moreover have "bus_write a 4 (ucast q) b = (Inr (), set_virtio_cell i (Available v') b')"
    using assms(2,3) n(1) by (simp add: bus_write_register [OF assms(1)] on_virtio_def)
  moreover have virtio_cell: "virtios (heap (set_virtio_cell i c b')) i = c" for c by (simp add: set_virtio_cell_def)
  ultimately show ?thesis
    using n(2-4) eff
    by (intro exI [of _ "set_virtio_cell i (Available v') b'"] exI [of _ v'])
      (simp add: ram_holds_cell irq_status_def virtio_cell)
qed

text \<open>A driver's memory with a request to read two bytes of sector 0: descriptors at 0, the available ring at
  0x30, the used ring at 0x38, the header at 0x44, the data at 0x54 and the status at 0x56.\<close>

definition driver_memory :: "u8 list" where
  "driver_memory =
     [0x44, 0, 0, 0, 0, 0, 0, 0, 16, 0, 0, 0, 1, 0, 1, 0,
      0x54, 0, 0, 0, 0, 0, 0, 0, 2, 0, 0, 0, 3, 0, 2, 0,
      0x56, 0, 0, 0, 0, 0, 0, 0, 1, 0, 0, 0, 2, 0, 0, 0] @
     [0, 0, 1, 0, 0, 0, 0, 0] @ [0, 0, 0, 0, 0, 0, 0, 0, 0, 0, 0, 0] @
     [0, 0, 0, 0, 0, 0, 0, 0, 0, 0, 0, 0, 0, 0, 0, 0] @ [0, 0, 0xff, 0]"

definition driver_device :: virtio_blk where
  "driver_device = (virtio_new 0 None)\<lparr>disk := [0xab, 0xcd], queue_num := 8, queue_ready := 1,
     avail_addr := 0x30, used_addr := 0x38\<rparr>"

definition driver_bus :: bus where
  "driver_bus = (memory_bus driver_memory)\<lparr>bus_virtio := Some 0,
     virtio_range := \<lparr>range_start = 0x10001000, range_size = 0x1000\<rparr>,
     heap := empty_heap\<lparr>virtios := (\<lambda>_. Available driver_device)\<rparr>\<rparr>"

lemma driver_holds:
  assumes "n \<in> {1, 2, 4, 8}" "unat a + unat n \<le> 88"
  shows "bus_ram_valid driver_bus a n"
    "ram_holds driver_bus a n x \<longleftrightarrow> x = from_le_bytes (take (unat n) (drop (unat a) driver_memory))"
proof -
  have l: "length driver_memory = 88" by (simp add: driver_memory_def)
  have c: "bus_ram_valid driver_bus = bus_ram_valid (memory_bus driver_memory)" "ram_holds driver_bus = ram_holds (memory_bus driver_memory)"
    by (rule_tac [2] ram_holds_cong) (simp_all add: driver_bus_def bus_ram_valid_def fun_eq_iff)
  have v: "bus_ram_valid (memory_bus driver_memory) a n" using assms l by (intro memory_bus_valid) simp_all
  then show "bus_ram_valid driver_bus a n" by (simp add: c)
  show "ram_holds driver_bus a n x \<longleftrightarrow> x = from_le_bytes (take (unat n) (drop (unat a) driver_memory))"
    using v memory_bus_read [of driver_memory n a] assms l by (auto simp: c ram_holds_def)
qed

lemma driver_words:
  "from_le_bytes (take 8 driver_memory) = 68"
  "from_le_bytes (take 4 (drop 8 driver_memory)) = 16"
  "from_le_bytes (take 2 (drop 12 driver_memory)) = 1"
  "from_le_bytes (take 2 (drop 14 driver_memory)) = 1"
  "from_le_bytes (take 8 (drop 16 driver_memory)) = 84"
  "from_le_bytes (take 4 (drop 24 driver_memory)) = 2"
  "from_le_bytes (take 2 (drop 28 driver_memory)) = 3"
  "from_le_bytes (take 2 (drop 30 driver_memory)) = 2"
  "from_le_bytes (take 8 (drop 32 driver_memory)) = 86"
  "from_le_bytes (take 4 (drop 40 driver_memory)) = 1"
  "from_le_bytes (take 2 (drop 44 driver_memory)) = 2"
  "from_le_bytes (take 2 (drop 46 driver_memory)) = 0"
  "from_le_bytes (take 2 (drop 50 driver_memory)) = 1"
  "from_le_bytes (take 2 (drop 52 driver_memory)) = 0"
  "from_le_bytes (take 2 (drop 58 driver_memory)) = 0"
  "from_le_bytes (take 4 (drop 68 driver_memory)) = 0"
  "from_le_bytes (take 8 (drop 76 driver_memory)) = 0"
  unfolding driver_memory_def by code_simp+

theorem queue_notify_serves_witness:
  "\<exists>b'. bus_write 0x10001050 4 0 driver_bus = (Inr (), b')
     \<and> fst (bus_read 0x54 1 b') = Inr 0xab \<and> fst (bus_read 0x55 1 b') = Inr 0xcd \<and> fst (bus_read 0x56 1 b') = Inr 0
     \<and> irq_status (heap b') (Virtio_source 0) = Inr 1"
proof -
  have reg: "virtio_register driver_bus 0x10001050 QUEUE_NOTIFY" "bus_virtio driver_bus = Some 0"
    "virtios (heap driver_bus) 0 = Available driver_device"
    by (simp_all add: virtio_register_def driver_bus_def memory_bus_def bus_new_def driver_memory_def range_none_def
        contains_def checked_add_def)
  have elem: "used_elem driver_device 0 = 0x3c" by (simp add: used_elem_def driver_device_def)
  have one: "one_request (ram_holds driver_bus) driver_device 0 0 0 0"
    by (simp add: one_request_def driver_device_def virtio_new_def driver_holds driver_words)
  have base: "desc_addr driver_device = 0" by (simp add: driver_device_def virtio_new_def)
  have "desc_in (ram_holds driver_bus) 0 0 (0x44, 16, 1) 1" "desc_in (ram_holds driver_bus) 0 1 (0x54, 2, 3) 2"
    "desc_in (ram_holds driver_bus) 0 2 (0x56, 1, 2) 0"
    by (simp_all add: desc_in_def Let_def driver_holds driver_words)
  moreover have "distinct [0 :: u16, 1, 2]" "bit (1 :: u16) 0" "bit (3 :: u16) 0" "\<not> bit (2 :: u16) 0" by simp_all
  ultimately have chain: "chain_in (ram_holds driver_bus) (desc_addr driver_device) 0 0x44 0x54 2 0x56"
    unfolding chain_in_def base by blast
  have mem: "ram_holds driver_bus 0x44 4 (ucast VIRTIO_BLK_T_IN)" "ram_holds driver_bus (0x44 + 8) 8 0"
    "\<forall>k < unat (2 :: u32). bus_ram_valid driver_bus (0x54 + of_nat k) 1" "bus_ram_valid driver_bus 0x56 1"
    "bus_ram_valid driver_bus (used_elem driver_device 0) 4" "bus_ram_valid driver_bus (used_elem driver_device 0 + 4) 4"
    "sorted_wrt apart (device_writes driver_device 0 0x54 2 0x56)"
    by (auto simp: driver_holds driver_words elem less_2_cases_iff device_writes_def apart_def) (simp_all add: driver_device_def)
  have st: "disk_byte driver_device 0 = 0xab" "disk_byte driver_device 1 = 0xcd" "interrupt_status driver_device = 0"
    by (simp_all add: driver_device_def disk_byte_def virtio_new_def)
  obtain b' where b': "bus_write 0x10001050 4 (ucast (0 :: u32)) driver_bus = (Inr (), b')" "ram_holds b' 0x56 1 0"
    "irq_status (heap b') (Virtio_source 0) = Inr (interrupt_status driver_device OR 1)"
    "\<forall>k < unat (2 :: u32). ram_holds b' (0x54 + of_nat k) 1 (ucast (disk_byte driver_device (unat (0 :: u64) * 512 + k)))"
    using queue_notify_serves [OF reg one chain mem(1,2) _ _ _ mem(3-7)] by auto
  from b'(4) [rule_format, of 0] b'(4) [rule_format, of 1] b'(1-3) st show ?thesis by (auto simp: ram_holds_def)
qed

section \<open>Queue addresses\<close>

text \<open>A queue address written low half first is the two halves joined, whatever upper bits the register
  stored to the low half had; written high half first, those bits stay in the address.\<close>

lemma queue_address_halves:
  fixes lo hi :: u64
  shows "desc_addr (fst (snd (and_then (virtio_write rd wr QUEUE_DESC_LOW 4 lo)
      (\<lambda>_. virtio_write rd wr QUEUE_DESC_HIGH 4 hi) (v, b)))) = take_bit 32 lo OR push_bit 32 hi"
    and "desc_addr (fst (snd (and_then (virtio_write rd wr QUEUE_DESC_HIGH 4 hi)
      (\<lambda>_. virtio_write rd wr QUEUE_DESC_LOW 4 lo) (v, b)))) = lo OR push_bit 32 hi"
proof -
  have m: "(0xffffffff :: u64) = mask 32" by (simp add: mask_eq_exp_minus_1)
  have "((x AND NOT (mask 32)) OR lo) AND mask 32 OR push_bit 32 hi = take_bit 32 lo OR push_bit 32 hi" for x
    by (rule bit_word_eqI) (auto simp: bit_simps)
  then show "desc_addr (fst (snd (and_then (virtio_write rd wr QUEUE_DESC_LOW 4 lo)
      (\<lambda>_. virtio_write rd wr QUEUE_DESC_HIGH 4 hi) (v, b)))) = take_bit 32 lo OR push_bit 32 hi"
    unfolding virtio_write_def m by (simp add: and_then_def)
  have "((x AND mask 32) OR push_bit 32 hi) AND NOT (mask 32) OR lo = lo OR push_bit 32 hi" for x
    by (rule bit_word_eqI) (auto simp: bit_simps)
  then show "desc_addr (fst (snd (and_then (virtio_write rd wr QUEUE_DESC_HIGH 4 hi)
      (\<lambda>_. virtio_write rd wr QUEUE_DESC_LOW 4 lo) (v, b)))) = lo OR push_bit 32 hi"
    unfolding virtio_write_def m by (simp add: and_then_def)
qed

end
