(* ===== verification/Atomics.thy ===== *)
theory Atomics
  imports Execute
begin

text \<open>
  AMOSWAP.W, the one atomic of \<^verbatim>\<open>execute.rs\<close>, as what xv6 needs it for: a lock word several harts
  swap a 1 into.
\<close>

section \<open>The lock word as each hart sees it\<close>

text \<open>The memories that stores to the word at \<open>a\<close> can make of \<open>b\<close>.\<close>

definition lock_stores :: "u64 \<Rightarrow> bus \<Rightarrow> u64 list \<Rightarrow> bus" where
  "lock_stores a b vs = foldl (\<lambda>x v. snd (bus_write a 4 v x)) b vs"

text \<open>
  Hart \<open>c\<close> reads and writes the word at \<open>a\<close> under its virtual address \<open>va\<close>: with paging off the two
  are the same; with paging on, the hart's page tables map \<open>va\<close> to \<open>a\<close> for both, and its TLB agrees
  with them.
\<close>

definition reaches :: "u64 \<Rightarrow> bus \<Rightarrow> u64 \<Rightarrow> cpu \<Rightarrow> bool" where
  "reaches a b va c \<longleftrightarrow>
     (let satp = csr_get (csrs c) SATP in
      drop_bit 60 satp = MODE_BARE \<and> va = a
      \<or> drop_bit 60 satp = MODE_SV39 \<and> tlb_coherent (c, b) \<and> sv39 b satp va Access_R a \<and> sv39 b satp va Access_W a)"

text \<open>
  Instruction \<open>i\<close> is an AMOSWAP.W with a destination other than x0, and hart \<open>c\<close> reaches the word at
  \<open>a\<close> with it whatever the word holds (its page tables do not run through the lock word).
\<close>

definition swapper :: "u64 \<Rightarrow> bus \<Rightarrow> instruction \<times> cpu \<Rightarrow> bool" where
  "swapper a b = (\<lambda>(i, c). funct3 i = 0x2 \<and> drop_bit 2 (funct7 i) = 0b00001
     \<and> rs1 i < 32 \<and> rs2 i < 32 \<and> 0 < rd i \<and> rd i < 32
     \<and> (\<forall>vs. reaches a (lock_stores a b vs) (reg_array (regs c) (rs1 i)) c))"

lemma swapper_store: "swapper a b t \<Longrightarrow> swapper a (snd (bus_write a 4 v b)) t"
proof -
  have "lock_stores a (snd (bus_write a 4 v b)) vs = lock_stores a b (v # vs)" for vs
    by (simp add: lock_stores_def)
  then show "swapper a b t \<Longrightarrow> swapper a (snd (bus_write a 4 v b)) t" by (cases t) (simp add: swapper_def)
qed

lemma reaches_translate:
  assumes "reaches a b va c" "acc = Access_R \<or> acc = Access_W"
  shows "\<exists>t. translate va acc (c, b) = (Inr a, (c\<lparr>tlb := t\<rparr>, b)) \<and> reaches a b va (c\<lparr>tlb := t\<rparr>)"
proof (cases "drop_bit 60 (csr_get (csrs c) SATP) = MODE_BARE")
  case True
  then have "translate va acc (c, b) = (Inr a, (c\<lparr>tlb := tlb c\<rparr>, b))"
    using assms(1) by (simp add: reaches_def translate_def Let_def)
  then show ?thesis using assms(1) by (intro exI [of _ "tlb c"]) simp
next
  case False
  then have p: "tlb_coherent (c, b)" "drop_bit 60 (csr_get (csrs c) SATP) = MODE_SV39"
    and m: "sv39 b (csr_get (csrs c) SATP) va Access_R a" "sv39 b (csr_get (csrs c) SATP) va Access_W a"
    using assms(1) by (auto simp: reaches_def Let_def)
  have "fst (translate va acc (c, b)) = Inr a" using translate_sv39(1) [OF p] m assms(2) by blast
  moreover obtain t where "snd (translate va acc (c, b)) = (c\<lparr>tlb := t\<rparr>, b)" "tlb_coherent (c\<lparr>tlb := t\<rparr>, b)"
    using translate_sv39(2) [OF p] by blast
  ultimately show ?thesis using p(2) m by (intro exI [of _ t]) (simp add: reaches_def Let_def prod_eq_iff)
qed

section \<open>The exchange\<close>

lemma swap_exchanges:
  assumes "swapper a b (i, c)" "bus_ram_valid b a 4" "bus_read a 4 b = (Inr old, b)"
  shows "\<exists>c' b'. exec_amo i n (c, b) = (Inr n, (c', b')) \<and> reg_array (regs c') (rd i) = sext64 old 32
    \<and> b' = snd (bus_write a 4 (reg_array (regs c) (rs2 i)) b)
    \<and> bus_ram_valid b' a 4 \<and> bus_read a 4 b' = (Inr (take_bit 32 (reg_array (regs c) (rs2 i))), b')"
proof -
  note S = assms(1) [unfolded swapper_def split_conv]
  let ?va = "reg_array (regs c) (rs1 i)" and ?src = "reg_array (regs c) (rs2 i)"
  have "reaches a (lock_stores a b []) ?va c" using S by blast
  then have "reaches a b ?va c" by (simp add: lock_stores_def)
  then obtain t where r: "translate ?va Access_R (c, b) = (Inr a, (c\<lparr>tlb := t\<rparr>, b))" "reaches a b ?va (c\<lparr>tlb := t\<rparr>)"
    using reaches_translate [of a b ?va c Access_R] by blast
  obtain u where u: "translate ?va Access_W (c\<lparr>tlb := t\<rparr>, b) = (Inr a, (c\<lparr>tlb := u\<rparr>, b))"
    using reaches_translate [OF r(2), of Access_W] by auto
  define b' where "b' = snd (bus_write a 4 ?src b)"
  have w: "bus_write a 4 ?src b = (Inr (), b')" using bus_mem.write_eq [OF assms(2)] by (simp add: b'_def)
  have v: "bus_ram_valid b' a 4" using bus_mem.write_valid [OF assms(2), of ?src a 4] assms(2) by (simp add: b'_def)
  have "bus_read a 4 b' = (Inr (take_bit 32 ?src), b')"
    using bus_mem.write_then_read [OF assms(2), of ?src] w by (simp add: and_then_def)
  moreover have "exec_amo i n (c, b) = and_then (set_reg (rd i) (sext64 old 32)) (\<lambda>_. ok n) (c\<lparr>tlb := u\<rparr>, b')"
    using S w assms(3) r(1) u
    by (simp add: exec_amo_def and_then_def get_reg_in_range cpu_read_def cpu_write_def on_snd_def Let_def)
  ultimately show ?thesis using S v unfolding b'_def [symmetric] by (simp add: set_reg_in_range and_then_def ok_def)
qed

section \<open>Harts taking turns\<close>

text \<open>Each hart of a list runs its instruction once, in the list's order, on the shared bus; what it
  then has in its destination register.\<close>

fun amo_turns :: "(instruction \<times> cpu) list \<Rightarrow> bus \<Rightarrow> u64 res list \<times> bus" where
  "amo_turns [] b = ([], b)"
| "amo_turns ((i, c) # turns) b =
     (case exec_amo i 0 (c, b) of
        (r, (c', b')) \<Rightarrow>
          (case amo_turns turns b' of
             (rest, b'') \<Rightarrow> ((case r of Inl e \<Rightarrow> Inl e | Inr _ \<Rightarrow> Inr (reg_array (regs c') (rd i))) # rest, b'')))"

definition takes_lock :: "u64 \<Rightarrow> bus \<Rightarrow> instruction \<times> cpu \<Rightarrow> bool" where
  "takes_lock a b t \<longleftrightarrow> swapper a b t \<and> take_bit 32 (reg_array (regs (snd t)) (rs2 (fst t))) = 1"

lemma takes_lock_store: "takes_lock a b t \<Longrightarrow> takes_lock a (snd (bus_write a 4 v b)) t"
  by (simp add: takes_lock_def swapper_store)

lemma turn:
  assumes "takes_lock a b (i, c)" "bus_ram_valid b a 4" "bus_read a 4 b = (Inr old, b)"
  obtains c' v where "exec_amo i 0 (c, b) = (Inr 0, (c', snd (bus_write a 4 v b)))"
    "reg_array (regs c') (rd i) = sext64 old 32" "bus_ram_valid (snd (bus_write a 4 v b)) a 4"
    "bus_read a 4 (snd (bus_write a 4 v b)) = (Inr 1, snd (bus_write a 4 v b))"
  using swap_exchanges [of a b i c old 0] assms by (auto simp: takes_lock_def)

lemma turns_on_taken_lock:
  assumes "list_all (takes_lock a b) turns" "bus_ram_valid b a 4" "bus_read a 4 b = (Inr 1, b)"
  shows "\<exists>b'. amo_turns turns b = (replicate (length turns) (Inr 1), b') \<and> bus_read a 4 b' = (Inr 1, b')"
  using assms
proof (induction turns arbitrary: b)
  case (Cons t turns)
  obtain i c where t: "t = (i, c)" by fastforce
  have one: "sext64 1 32 = 1" by code_simp
  obtain c' v where s: "exec_amo i 0 (c, b) = (Inr 0, (c', snd (bus_write a 4 v b)))" "reg_array (regs c') (rd i) = sext64 1 32"
    "bus_ram_valid (snd (bus_write a 4 v b)) a 4" "bus_read a 4 (snd (bus_write a 4 v b)) = (Inr 1, snd (bus_write a 4 v b))"
    using turn [of a b i c 1] Cons.prems t by auto
  have "list_all (takes_lock a (snd (bus_write a 4 v b))) turns"
    using Cons.prems(1) by (auto simp: list_all_iff takes_lock_store)
  from Cons.IH [OF this s(3,4)] s(1,2) show ?case by (auto simp: t one)
qed simp

text \<open>
  C15: mutual exclusion by AMOSWAP. Let harts swap a 1 into a free lock word in main memory with an
  AMOSWAP.W (destination not x0) one after another, in any order and any number, each with paging off
  or under a virtual address of its own that its page tables map to the word for reading and
  writing, whatever the word holds, with a TLB that agrees with them. Then no swap faults, the first
  hart reads 0 and every other one reads 1: exactly one hart takes the lock, and the word stays
  taken.
\<close>

theorem amoswap_lock:
  assumes "list_all (takes_lock a b) (t # turns)" "bus_ram_valid b a 4" "bus_read a 4 b = (Inr 0, b)"
  shows "\<exists>b'. amo_turns (t # turns) b = (Inr 0 # replicate (length turns) (Inr 1), b') \<and> bus_read a 4 b' = (Inr 1, b')"
proof -
  obtain i c where t: "t = (i, c)" by fastforce
  have zero: "sext64 0 32 = 0" by code_simp
  obtain c' v where s: "exec_amo i 0 (c, b) = (Inr 0, (c', snd (bus_write a 4 v b)))" "reg_array (regs c') (rd i) = sext64 0 32"
    "bus_ram_valid (snd (bus_write a 4 v b)) a 4" "bus_read a 4 (snd (bus_write a 4 v b)) = (Inr 1, snd (bus_write a 4 v b))"
    using turn [of a b i c 0] assms t by auto
  have "list_all (takes_lock a (snd (bus_write a 4 v b))) turns"
    using assms(1) by (auto simp: list_all_iff takes_lock_store)
  from turns_on_taken_lock [OF this s(3,4)] s(1,2) show ?thesis by (auto simp: t zero)
qed

section \<open>An instance\<close>

text \<open>
  \<open>amoswap.w.aq a5, a5, (s1)\<close>, as xv6's \<open>acquire\<close> has it, on a hart with paging off and on harts that
  see the first gigabyte under virtual address 0 or, by a second entry, 0x40000000.
\<close>

definition acquire_hart :: "u64 \<Rightarrow> u64 \<Rightarrow> cpu" where
  "acquire_hart satp va = (csr_write (cpu_new 0) SATP satp)\<lparr>regs := \<lparr>reg_array = (\<lambda>_. 0)(9 := va, 15 := 1)\<rparr>\<rparr>"

definition lock_bus :: bus where
  "lock_bus = memory_bus [0xf, 0, 0, 0, 0, 0, 0, 0, 0xf, 0, 0, 0, 0, 0, 0, 0, 0, 0, 0, 0]"

lemma acquire_hart_satp: "csr_get (csrs (acquire_hart satp va)) SATP = satp"
  by (simp add: acquire_hart_def csr_write_def aliased_target_def)

lemma acquire_hart_coherent: "tlb_coherent (acquire_hart satp va, b)"
  by (simp add: tlb_coherent_def acquire_hart_def csr_write_def aliased_target_def tlb.cached_drop_all)

lemma lock_bus_keeps:
  "bus_ram_valid (lock_stores 16 lock_bus vs) 16 4
   \<and> (\<forall>x \<in> {0, 8}. bus_ram_valid (lock_stores 16 lock_bus vs) x 8
        \<and> fst (bus_read x 8 (lock_stores 16 lock_bus vs)) = Inr 0xf)"
proof (induction vs rule: rev_induct)
  case Nil
  show ?case by (simp add: lock_stores_def lock_bus_def memory_bus_valid memory_bus_read from_le_bytes_def)
next
  case (snoc v vs)
  let ?b = "lock_stores 16 lock_bus vs"
  from snoc have v: "bus_ram_valid ?b 16 4" by blast
  have "fst (bus_read x 8 (snd (bus_write 16 4 v ?b))) = fst (bus_read x 8 ?b)" if "x \<in> {0, 8}" for x
    using bus_mem.read_other [OF v, of x 8 v] snoc that by auto
  then show ?case using snoc bus_mem.write_valid [OF v, of v] by (simp add: lock_stores_def)
qed

lemma lock_bus_sv39:
  assumes "va = 16 \<or> va = 0x40000010"
  shows "sv39 (lock_stores 16 lock_bus vs) (push_bit 60 8) va acc 16"
proof -
  let ?b = "lock_stores 16 lock_bus vs"
  have "page_index va 2 * 8 \<in> {0, 8}" using assms by (auto simp: page_index_def)
  then have "pte_at ?b va 2 0 0xf" using lock_bus_keeps [of vs] by (auto simp: pte_at_def)
  then have "leaf_reached ?b va 2 (push_bit 12 (take_bit 44 (push_bit 60 8))) 0xf 2"
    using leaf_reached.leaf [of ?b va 2 0 "0xf"] by simp
  from sv39_leaf [OF this] show ?thesis using assms by (cases acc) (auto simp: grants_def)
qed

lemma acquire_takes_lock:
  assumes "satp = 0 \<and> va = 16 \<or> satp = push_bit 60 8 \<and> (va = 16 \<or> va = 0x40000010)"
  shows "takes_lock 16 lock_bus (instruction_new 0x0cf4a7af, acquire_hart satp va)"
proof -
  let ?i = "instruction_new 0x0cf4a7af"
  have i: "funct3 ?i = 2 \<and> drop_bit 2 (funct7 ?i) = 1 \<and> rs1 ?i = 9 \<and> rs2 ?i = 15 \<and> rd ?i = 15" by code_simp
  have "reaches 16 (lock_stores 16 lock_bus vs) va (acquire_hart satp va)" for vs
    using assms lock_bus_sv39 [of va vs]
    by (auto simp: reaches_def acquire_hart_satp acquire_hart_coherent Let_def)
  then show ?thesis using i by (simp add: takes_lock_def swapper_def) (simp add: acquire_hart_def)
qed

theorem amoswap_lock_witness:
  "fst (amo_turns (map (Pair (instruction_new 0x0cf4a7af))
       [acquire_hart (push_bit 60 8) 0x40000010, acquire_hart 0 16, acquire_hart (push_bit 60 8) 16]) lock_bus)
     = [Inr 0, Inr 1, Inr 1]"
proof -
  have "bus_ram_valid lock_bus 16 4" "bus_read 16 4 lock_bus = (Inr 0, lock_bus)"
    by (simp_all add: lock_bus_def memory_bus_valid memory_bus_read from_le_bytes_def)
  moreover note acquire_takes_lock [of "push_bit 60 8" "0x40000010"] acquire_takes_lock [of 0 16]
    acquire_takes_lock [of "push_bit 60 8" 16]
  ultimately show ?thesis
    using amoswap_lock [of 16 lock_bus "(instruction_new 0x0cf4a7af, acquire_hart (push_bit 60 8) 0x40000010)"
        "map (Pair (instruction_new 0x0cf4a7af)) [acquire_hart 0 16, acquire_hart (push_bit 60 8) 16]"]
    by (auto simp: numeral_2_eq_2)
qed

end
