(* ===== verification/Isa_Compressed.thy ===== *)
theory Isa_Compressed
  imports Rvc_Expansion
begin

text \<open>
  The C extension as its specification tabulates it, independent of the accessors of \<^verbatim>\<open>rvc.rs\<close>: for
  every format the places of its immediate's bits, and for every instruction the 32-bit one it
  stands for. The interpreter implements this table.
\<close>

section \<open>Fields and immediate layouts\<close>

definition field :: "u16 \<Rightarrow> nat \<Rightarrow> nat \<Rightarrow> u32" where
  "field w pos n = take_bit n (drop_bit pos (ucast w))"

text \<open>Bit \<open>s\<close> of the halfword, moved to place \<open>d\<close>, and all the bits of a layout of such pairs.\<close>

definition put :: "u16 \<Rightarrow> nat \<Rightarrow> nat \<Rightarrow> u32" where
  "put w s d = push_bit d (of_bool (bit w s))"

definition scatter :: "(nat \<times> nat) list \<Rightarrow> u16 \<Rightarrow> u32" where
  "scatter layout w = foldr (\<lambda>(d, s) acc. put w s d OR acc) layout 0"

text \<open>The layouts, as pairs of a bit of the immediate and the bit of the halfword that holds it.\<close>

definition CI_imm :: "(nat \<times> nat) list" where "CI_imm = [(5, 12), (4, 6), (3, 5), (2, 4), (1, 3), (0, 2)]"
definition ADDI4SPN_imm :: "(nat \<times> nat) list" where
  "ADDI4SPN_imm = [(5, 12), (4, 11), (9, 10), (8, 9), (7, 8), (6, 7), (2, 6), (3, 5)]"
definition W_offset :: "(nat \<times> nat) list" where "W_offset = [(5, 12), (4, 11), (3, 10), (2, 6), (6, 5)]"
definition D_offset :: "(nat \<times> nat) list" where "D_offset = [(5, 12), (4, 11), (3, 10), (7, 6), (6, 5)]"
definition ADDI16SP_imm :: "(nat \<times> nat) list" where
  "ADDI16SP_imm = [(9, 12), (4, 6), (6, 5), (8, 4), (7, 3), (5, 2)]"
definition CJ_offset :: "(nat \<times> nat) list" where
  "CJ_offset = [(11, 12), (4, 11), (9, 10), (8, 9), (10, 8), (6, 7), (7, 6), (3, 5), (2, 4), (1, 3), (5, 2)]"
definition CB_offset :: "(nat \<times> nat) list" where
  "CB_offset = [(8, 12), (4, 11), (3, 10), (7, 6), (6, 5), (2, 4), (1, 3), (5, 2)]"
definition LDSP_offset :: "(nat \<times> nat) list" where
  "LDSP_offset = [(5, 12), (4, 6), (3, 5), (8, 4), (7, 3), (6, 2)]"
definition SDSP_offset :: "(nat \<times> nat) list" where
  "SDSP_offset = [(5, 12), (4, 11), (3, 10), (8, 9), (7, 8), (6, 7)]"

section \<open>The table\<close>

definition nonzero :: "u32 \<Rightarrow> u32 \<Rightarrow> u32 option" where
  "nonzero imm word = (if imm = 0 then None else Some word)"

definition isa_quadrant0 :: "u16 \<Rightarrow> u32 option" where
  "isa_quadrant0 w =
     (let f3 = field w 13 3; r1 = field w 7 3 + 8; r2 = field w 2 3 + 8 in
      if f3 = 0 then nonzero (scatter ADDI4SPN_imm w) (encode_i (scatter ADDI4SPN_imm w) SP 0 r2 OPCODE_OP_IMM)
      else if f3 = 2 then Some (encode_i (scatter W_offset w) r1 2 r2 OPCODE_LOAD)
      else if f3 = 3 then Some (encode_i (scatter D_offset w) r1 3 r2 OPCODE_LOAD)
      else if f3 = 6 then Some (encode_s (scatter W_offset w) r1 r2 2 OPCODE_STORE)
      else if f3 = 7 then Some (encode_s (scatter D_offset w) r1 r2 3 OPCODE_STORE)
      else None)"

definition isa_alu :: "u16 \<Rightarrow> u32 option" where
  "isa_alu w =
     (let sel = field w 10 2; r1 = field w 7 3 + 8; r2 = field w 2 3 + 8; f2 = field w 5 2; imm = scatter CI_imm w in
      if sel = 0 then nonzero imm (encode_i imm r1 5 r1 OPCODE_OP_IMM)
      else if sel = 1 then nonzero imm (encode_i (0x400 OR imm) r1 5 r1 OPCODE_OP_IMM)
      else if sel = 2 then Some (encode_i (signed_take_bit 5 imm) r1 7 r1 OPCODE_OP_IMM)
      else if field w 12 1 = 0 then
        Some (if f2 = 0 then encode_r 0x20 r2 r1 0 r1 OPCODE_OP
              else encode_r 0 r2 r1 (if f2 = 1 then 4 else if f2 = 2 then 6 else 7) r1 OPCODE_OP)
      else if f2 = 0 then Some (encode_r 0x20 r2 r1 0 r1 OPCODE_OP_32)
      else if f2 = 1 then Some (encode_r 0 r2 r1 0 r1 OPCODE_OP_32)
      else None)"

definition isa_quadrant1 :: "u16 \<Rightarrow> u32 option" where
  "isa_quadrant1 w =
     (let f3 = field w 13 3; d = field w 7 5; imm = signed_take_bit 5 (scatter CI_imm w);
          sp_imm = signed_take_bit 9 (scatter ADDI16SP_imm w); target = signed_take_bit 8 (scatter CB_offset w) in
      if f3 = 0 then Some (encode_i imm d 0 d OPCODE_OP_IMM)
      else if f3 = 1 then (if d = 0 then None else Some (encode_i imm d 0 d OPCODE_OP_IMM_32))
      else if f3 = 2 then (if d = 0 then None else Some (encode_i imm ZERO 0 d OPCODE_OP_IMM))
      else if f3 = 3 then
        (if d = 2 then nonzero sp_imm (encode_i sp_imm SP 0 SP OPCODE_OP_IMM)
         else if d = 0 then None else nonzero imm (encode_u (push_bit 12 imm) d OPCODE_LUI))
      else if f3 = 4 then isa_alu w
      else if f3 = 5 then Some (encode_j (signed_take_bit 11 (scatter CJ_offset w)) ZERO OPCODE_JAL)
      else if f3 = 6 then Some (encode_b target (field w 7 3 + 8) ZERO 0 OPCODE_BRANCH)
      else Some (encode_b target (field w 7 3 + 8) ZERO 1 OPCODE_BRANCH))"

definition isa_quadrant2 :: "u16 \<Rightarrow> u32 option" where
  "isa_quadrant2 w =
     (let f3 = field w 13 3; d = field w 7 5; r2 = field w 2 5; imm = scatter CI_imm w in
      if f3 = 0 then nonzero imm (encode_i imm d 1 d OPCODE_OP_IMM)
      else if f3 = 3 then (if d = 0 then None else Some (encode_i (scatter LDSP_offset w) SP 3 d OPCODE_LOAD))
      else if f3 = 4 then
        (if d = 0 then None
         else if r2 = 0 then Some (encode_i 0 d 0 (if field w 12 1 = 0 then ZERO else RA) OPCODE_JALR)
         else Some (encode_r 0 r2 (if field w 12 1 = 0 then ZERO else d) 0 d OPCODE_OP))
      else if f3 = 7 then Some (encode_s (scatter SDSP_offset w) SP r2 3 OPCODE_STORE)
      else None)"

definition expand :: "u16 \<Rightarrow> u32 option" where
  "expand w =
     (if field w 0 2 = 0 then isa_quadrant0 w else if field w 0 2 = 1 then isa_quadrant1 w
      else if field w 0 2 = 2 then isa_quadrant2 w else None)"

section \<open>The accessors extract these fields\<close>

lemma bits_at_field: "bits_at (c_value (cinstruction_new w)) pos n = field w pos n"
  by (simp add: bits_at_eq field_def cinstruction_new_def)

lemma bit_field: "bit (field w pos n) k \<longleftrightarrow> k < n \<and> bit w (pos + k)"
  by (auto simp: field_def bit_simps dest: bit_imp_le_length)

lemma c_sext_signed:
  assumes "0 < n" "n \<le> 32"
  shows "c_sext v n = scast (signed_take_bit (n - 1) v)"
proof -
  obtain m where m: "32 - n = m" "m + n = 32" using assms by auto
  have "bit (signed_drop_bit m (push_bit m v)) k = bit (signed_take_bit (n - 1) v) k" if "k < 32" for k
  proof (cases "n \<le> k")
    case True
    moreover have "32 - m = n" "m \<le> 31" "31 - m = n - 1" "min k (n - 1) = n - 1" using m assms True by auto
    ultimately show ?thesis using that by (simp add: bit_signed_drop_bit_iff bit_push_bit_iff bit_signed_take_bit_iff)
  next
    case False
    moreover have "32 - m = n" "min k (n - 1) = k" "m + k < 32" using m False by auto
    ultimately show ?thesis using that by (simp add: bit_signed_drop_bit_iff bit_push_bit_iff bit_signed_take_bit_iff)
  qed
  then have "signed_drop_bit m (push_bit m v) = signed_take_bit (n - 1) v" by (intro bit_word_eqI) simp
  then show ?thesis by (simp add: c_sext_def Let_def m(1))
qed

lemma scast_inverse: "(ucast (scast y :: u64) :: u32) = y" "(scast y :: u64) = 0 \<longleftrightarrow> y = 0" for y :: u32
proof -
  show e: "(ucast (scast y :: u64) :: u32) = y" for y :: u32
    by (rule bit_word_eqI) (auto simp: bit_simps)
  show "(scast y :: u64) = 0 \<longleftrightarrow> y = 0" by (metis e signed_0 unsigned_0)
qed

lemma field_Suc: "field w pos (Suc n) = field w pos n OR put w (pos + n) n"
  by (rule bit_word_eqI) (auto simp: bit_field put_def bit_simps less_Suc_eq)

lemma field_0: "field w pos 0 = 0"
  by (simp add: field_def)

lemma push_put: "push_bit m (put w s d) = put w s (m + d)"
  by (simp add: put_def)

lemma field_as_bits:
  "field w pos (Suc 0) = put w pos 0"
  "field w pos 2 = put w pos 0 OR put w (pos + 1) 1"
  "field w pos 3 = put w pos 0 OR put w (pos + 1) 1 OR put w (pos + 2) 2"
  "field w pos 4 = put w pos 0 OR put w (pos + 1) 1 OR put w (pos + 2) 2 OR put w (pos + 3) 3"
  "field w pos 5 = put w pos 0 OR put w (pos + 1) 1 OR put w (pos + 2) 2 OR put w (pos + 3) 3 OR put w (pos + 4) 4"
  by (simp_all add: eval_nat_numeral field_Suc field_0 or.assoc)

lemmas layouts = CI_imm_def ADDI4SPN_imm_def W_offset_def D_offset_def ADDI16SP_imm_def CJ_offset_def CB_offset_def
  LDSP_offset_def SDSP_offset_def

lemmas scatter_fields = bits_at_field field_as_bits layouts scatter_def push_bit_or push_put numeral_2_eq_2 [symmetric] numeral_3_eq_3 [symmetric] or.assoc or.commute or.left_commute

lemma immediate_words:
  "uimm_5_0 (cinstruction_new w) = scatter CI_imm w"
  "offset_6_2 (cinstruction_new w) = scatter W_offset w"
  "offset_7_3 (cinstruction_new w) = scatter D_offset w"
  "offset_8_3_ldsp (cinstruction_new w) = scatter LDSP_offset w"
  "offset_8_3_sdsp (cinstruction_new w) = scatter SDSP_offset w"
  by (simp_all add: uimm_5_0_def offset_6_2_def offset_7_3_def offset_8_3_ldsp_def offset_8_3_sdsp_def scatter_fields)

lemma immediate_signed:
  "imm_5_0 (cinstruction_new w) = scast (signed_take_bit 5 (scatter CI_imm w))"
  "offset_8_1 (cinstruction_new w) = scast (signed_take_bit 8 (scatter CB_offset w))"
  "offset_11_1 (cinstruction_new w) = scast (signed_take_bit 11 (scatter CJ_offset w))"
  by (simp_all add: imm_5_0_def offset_8_1_def offset_11_1_def c_sext_signed immediate_words scatter_fields)

lemma immediate_nonzero:
  "nzimm_9_4 (cinstruction_new w) = nz (scast (signed_take_bit 9 (scatter ADDI16SP_imm w)))"
  "nzuimm_9_2 (cinstruction_new w) =
     (let v = scatter ADDI4SPN_imm w in if v = 0 then error Zero_immediate else Inr v)"
  by (simp_all add: nzimm_9_4_def nzuimm_9_2_def c_sext_signed scatter_fields)

lemma code_expand_isa: "code_expand w = expand w"
proof -
  note F = c_op_def c_funct3_def c_funct2_def c_bit12_def c_reg_def bits_at_field
  note I = immediate_words immediate_signed immediate_nonzero scast_inverse nonzero_def nz_def error_def Let_def
  have "code_expand0 (cinstruction_new w) = isa_quadrant0 w"
    by (simp add: code_expand0_def isa_quadrant0_def F I)
  moreover have "code_expand_alu (cinstruction_new w) = isa_alu w"
    unfolding code_expand_alu_def isa_alu_def F I ..
  moreover have "code_expand2 (cinstruction_new w) = isa_quadrant2 w"
    by (simp add: code_expand2_def isa_quadrant2_def F I)
  moreover have "code_expand1 (cinstruction_new w) = isa_quadrant1 w"
    using calculation(2) by (simp add: code_expand1_def isa_quadrant1_def F I)
  ultimately show ?thesis by (simp add: code_expand_def expand_def F Let_def)
qed

section \<open>The interpreter implements the table\<close>

text \<open>
  C7: compressed instructions. A compressed instruction the interpreter accepts does exactly what
  the 32-bit instruction it stands for by the table of the C extension does, results, faults and memory effects included, with the
  pc advanced by 2 instead of 4; one it does not accept is an error that changes nothing. (The
  hart has zero in x0, and C.JR and C.JALR jump to an even address: unlike JALR they do not clear
  bit 0.)
\<close>

theorem compressed_expands:
  assumes "x0_zero (regs c)" "jump_target_even (cinstruction_new w) c"
  shows "case expand w of
     Some x \<Rightarrow> rvc_execute (cinstruction_new w) (c, b) = execute_at (pc c) (pc c + 2) (instruction_new x) (c, b)
   | None \<Rightarrow> \<exists>e. rvc_execute (cinstruction_new w) (c, b) = (Inl (Emu e), (c, b))"
  using code_expands [OF assms] by (simp only: code_expand_isa)

theorem compressed_expands_witness:
  "rvc_execute (cinstruction_new 0x0505) (cpu_new 0, memory_bus []) =
     execute_at 0 2 (instruction_new 0x00150513) (cpu_new 0, memory_bus [])
   \<and> (\<exists>e. rvc_execute (cinstruction_new 0) (cpu_new 0, memory_bus []) = (Inl (Emu e), (cpu_new 0, memory_bus [])))"
proof -
  have e: "expand 0x0505 = Some 0x00150513" "expand 0 = None"
    by code_simp+
  have j: "jump_target_even (cinstruction_new 0x0505) (cpu_new 0)" "jump_target_even (cinstruction_new 0) (cpu_new 0)"
    by (simp_all add: jump_target_even_def c_op_def bits_at_def cinstruction_new_def)
  have "x0_zero (regs (cpu_new 0))" "pc (cpu_new 0) = 0" by (simp_all add: cpu_new_def)
  then show ?thesis
    using compressed_expands [OF _ j(1), of "memory_bus []"] compressed_expands [OF _ j(2), of "memory_bus []"]
    by (simp add: e)
qed

end
