(* ===== verification/Unit_Tests.thy ===== *)
theory Unit_Tests
  imports Cpu
begin

text \<open>
  The unit tests at the end of the source files, run on the model. Each is the conjunction of its
  assertions on what the operations before them return, and false when one of those faults.
\<close>

definition passes :: "('s, bool) op \<Rightarrow> 's \<Rightarrow> bool" where
  "passes t s \<longleftrightarrow> fst (t s) = Inr True"

lemmas test_simps = passes_def and_then_def ok_def gets_def modify_def lift_res_def

section \<open>\<^verbatim>\<open>register.rs\<close>, \<^verbatim>\<open>ram.rs\<close>, \<^verbatim>\<open>decode.rs\<close>, \<^verbatim>\<open>bus.rs\<close>\<close>

definition x0_is_hardwired_to_zero :: bool where
  "x0_is_hardwired_to_zero \<longleftrightarrow>
     (case reg_write registers_new 0 42 of Inl _ \<Rightarrow> False | Inr r \<Rightarrow> reg_read r 0 = Inr 0)"

definition other_registers_are_read_write :: bool where
  "other_registers_are_read_write \<longleftrightarrow>
     (case reg_write registers_new 5 0xdeadbeef of Inl _ \<Rightarrow> False | Inr r \<Rightarrow> reg_read r 5 = Inr 0xdeadbeef)"

lemma register_tests: "x0_is_hardwired_to_zero" "other_registers_are_read_write"
  by (simp_all add: x0_is_hardwired_to_zero_def other_registers_are_read_write_def
      reg_write_def reg_read_def registers_new_def)

definition read_write_roundtrip :: bool where
  "read_write_roundtrip =
     passes (and_then (ram_write 0x10 4 0xdeadbeef) (\<lambda>_. and_then (ram_read 0x10 4) (\<lambda>v. ok (v = 0xdeadbeef))))
       (ram_new 0x100)"

lemma ram_test: "read_write_roundtrip"
proof -
  have v: "ram_valid (ram_new 0x100) 0x10 4" by (simp add: ram_valid_def ram_new_def)
  show ?thesis
    using ram_mem.write_then_read [OF v, of "0xdeadbeef"] ram_mem.write_returns [OF v, of "0xdeadbeef"]
    unfolding read_write_roundtrip_def passes_def
    by (simp add: and_then_assoc [symmetric] and_then_def ok_def split: prod.splits sum.splits)
qed

definition imm_i_sign_extends :: bool where
  "imm_i_sign_extends \<longleftrightarrow> imm_i (instruction_new 0x80100000) = - 2047"

definition field_extraction :: bool where
  "field_extraction \<longleftrightarrow>
     (let w = instruction_new 0x0a20b206 in
      opcode w = 6 \<and> rd w = 4 \<and> funct3 w = 3 \<and> rs1 w = 1 \<and> rs2 w = 2 \<and> funct7 w = 5)"

lemma decode_tests: "imm_i_sign_extends" "field_extraction"
  unfolding imm_i_sign_extends_def field_extraction_def by code_simp+

definition test_invalid_address :: "heap \<Rightarrow> bool" where
  "test_invalid_address h \<longleftrightarrow> isl (fst (bus_read 0 4 (bus_new h)))"

lemma bus_test: "test_invalid_address h"
  by (simp add: test_invalid_address_def bus_read_def read_mmio_def bus_new_def contains_def range_none_def checked_add_def error_def)

section \<open>\<^verbatim>\<open>uart.rs\<close>\<close>

definition test_uart :: uart where
  "test_uart = uart_new 0x100 (Some []) None"

definition no_data_available_by_default :: bool where
  "no_data_available_by_default =
     passes (and_then (uart_read 5 1) (\<lambda>x. and_then (gets uart_interrupt_status) (\<lambda>s. ok (x AND 1 = 0 \<and> s = 0)))) test_uart"

definition inject_makes_data_available_and_readable :: bool where
  "inject_makes_data_available_and_readable =
     passes
       (and_then (modify (inject [0x6c, 0x73, 0x0a])) (\<lambda>_.
        and_then (uart_read 5 1) (\<lambda>ready.
        and_then (uart_read 0 1) (\<lambda>x.
        and_then (uart_read 0 1) (\<lambda>y.
        and_then (uart_read 0 1) (\<lambda>z.
        and_then (uart_read 5 1) (\<lambda>drained.
        ok (ready AND 1 = 1 \<and> x = 0x6c \<and> y = 0x73 \<and> z = 0x0a \<and> drained AND 1 = 0))))))))
       test_uart"

definition rbr_read_without_data_returns_zero_not_garbage :: bool where
  "rbr_read_without_data_returns_zero_not_garbage = passes (and_then (uart_read 0 1) (\<lambda>x. ok (x = 0))) test_uart"

definition ier_bit_test_is_and_not_or :: bool where
  "ier_bit_test_is_and_not_or =
     passes
       (and_then (uart_write 1 1 3) (\<lambda>_.
        and_then (gets interrupt_enabled_rx) (\<lambda>on.
        and_then (uart_write 1 1 0) (\<lambda>_.
        and_then (gets interrupt_enabled_rx) (\<lambda>off. ok (on \<and> \<not> off))))))
       test_uart"

definition interrupt_status_requires_both_data_and_enable :: bool where
  "interrupt_status_requires_both_data_and_enable =
     passes
       (and_then (modify (inject [0x78])) (\<lambda>_.
        and_then (gets uart_interrupt_status) (\<lambda>before.
        and_then (uart_write 1 1 1) (\<lambda>_.
        and_then (gets uart_interrupt_status) (\<lambda>enabled.
        and_then (uart_read 0 1) (\<lambda>_.
        and_then (gets uart_interrupt_status) (\<lambda>drained.
        ok (before = 0 \<and> enabled = 1 \<and> drained = 0))))))))
       test_uart"

text \<open>A cursor over three bytes: the first read gets them.\<close>

definition poll_input_from_a_plain_stream :: bool where
  "poll_input_from_a_plain_stream =
     passes (and_then poll_input (\<lambda>_. and_then (gets rx_queue) (\<lambda>q. ok (q = [0x6c, 0x73, 0x0a]))))
       (uart_new 0x100 None (Some [Read_ok [0x6c, 0x73, 0x0a]]))"

lemma uart_tests:
  "no_data_available_by_default" "inject_makes_data_available_and_readable"
  "rbr_read_without_data_returns_zero_not_garbage" "ier_bit_test_is_and_not_or"
  "interrupt_status_requires_both_data_and_enable" "poll_input_from_a_plain_stream"
  by code_simp+

section \<open>\<^verbatim>\<open>plic.rs\<close>\<close>

text \<open>The shared cell the closure reads is the status every source answers with.\<close>

definition test_plic :: plic where
  "test_plic = register_irq 1 (Uart_source 0) (plic_new 0x400000)"

definition irq_line :: "u32 \<Rightarrow> irq_source \<Rightarrow> u32 res" where
  "irq_line status source = Inr status"

definition claim_respects_priority_enable_and_threshold :: bool where
  "claim_respects_priority_enable_and_threshold \<longleftrightarrow>
     claim_irq (irq_line 1) test_plic 1 = Inr 0 \<and>
     passes
       (and_then (plic_write 0x2080 4 2) (\<lambda>_.
        and_then (plic_write 4 4 1) (\<lambda>_.
        and_then (plic_write 0x201000 4 0) (\<lambda>_.
        and_then (gets (\<lambda>p. claimable (irq_line 1) p 1)) (\<lambda>up.
        and_then (plic_read (irq_line 1) 0x201004 4) (\<lambda>irq.
        and_then (gets (\<lambda>p. claimable (irq_line 0) p 1)) (\<lambda>down.
        ok (up = Inr True \<and> irq = 1 \<and> down = Inr False))))))))
       test_plic"

definition threshold_masks_low_priority :: bool where
  "threshold_masks_low_priority =
     passes
       (and_then (plic_write 0x2080 4 2) (\<lambda>_.
        and_then (plic_write 4 4 1) (\<lambda>_.
        and_then (plic_write 0x201000 4 2) (\<lambda>_.
        and_then (gets (\<lambda>p. claimable (irq_line 1) p 1)) (\<lambda>up. ok (up = Inr False))))))
       test_plic"

lemma plic_tests: "claim_respects_priority_enable_and_threshold" "threshold_masks_low_priority"
  by code_simp+

section \<open>\<^verbatim>\<open>rvc.rs\<close>\<close>

definition test_cpu :: "heap \<Rightarrow> machine res" where
  "test_cpu h = (case set_ram (ram_new 0x10000) 0 (bus_new h) of
     (Inl e, _) \<Rightarrow> Inl e | (Inr _, b) \<Rightarrow> Inr (cpu_new 0, b))"

definition c_alu_case :: "u16 \<times> u64 \<times> u64 \<times> u64 \<Rightarrow> (machine, bool) op" where
  "c_alu_case = (\<lambda>(word, a1, a5, expected).
     and_then (set_reg 11 a1) (\<lambda>_.
     and_then (set_reg 15 a5) (\<lambda>_.
     and_then (execute_compressed (cinstruction_new word)) (\<lambda>_.
     and_then (get_reg 11) (\<lambda>v. ok (v = expected))))))"

definition c_alu :: "heap \<Rightarrow> bool" where
  "c_alu h \<longleftrightarrow>
     list_all (\<lambda>t. case test_cpu h of Inl _ \<Rightarrow> False | Inr m \<Rightarrow> passes (c_alu_case t) m)
       [(0x8d9d, 10, 3, 7), (0x8dbd, 0b1010, 0b0110, 0b1100), (0x9d9d, 10, 3, 7), (0x9dbd, 10, 3, 13),
        (0x9dbd, 0xffffffff00000001, 0xffffffffffffffff, 0)]"

definition c_jalr_jumps_and_saves_return_address :: "heap \<Rightarrow> bool" where
  "c_jalr_jumps_and_saves_return_address h \<longleftrightarrow>
     (case test_cpu h of
        Inl _ \<Rightarrow> False
      | Inr m \<Rightarrow>
          passes
            (and_then (on_cpu (\<lambda>c. c\<lparr>pc := 0x1000\<rparr>)) (\<lambda>_.
             and_then (set_reg 10 0x2000) (\<lambda>_.
             and_then (execute_compressed (cinstruction_new 0x9502)) (\<lambda>_.
             and_then (gets (\<lambda>(c, b). pc c)) (\<lambda>p.
             and_then (get_reg 1) (\<lambda>ra. ok (p = 0x2000 \<and> ra = 0x1002)))))))
            m)"

definition nz_error_on_zero_immediate :: bool where
  "nz_error_on_zero_immediate \<longleftrightarrow> isl (nzimm_5_0 (cinstruction_new 0))"

lemma test_cpu_builds: "\<exists>b. test_cpu h = Inr (cpu_new 0, b)"
  by (simp add: test_cpu_def set_ram_def reserve_def add_range_def bus_new_def range_manager_new_def and_then_def modify_def ram_len_def ram_new_def
      checked_add_def Let_def partition_point_def vec_insert_def)

lemmas rvc_test_simps = test_simps set_reg_in_range get_reg_in_range on_cpu_def execute_compressed_def

lemma c_alu_fields:
  "list_all (\<lambda>w. let i = cinstruction_new w in c_op i = 1 \<and> c_funct3 i = 4 \<and> c_funct6 i AND 3 = 3
     \<and> rs1_prime i = 11 \<and> rs2_prime i = 15) [0x8d9d, 0x8dbd, 0x9d9d, 0x9dbd]"
  "c_funct6 (cinstruction_new 0x8d9d) AND 4 = 0 \<and> c_funct2 (cinstruction_new 0x8d9d) = 0"
  "c_funct6 (cinstruction_new 0x8dbd) AND 4 = 0 \<and> c_funct2 (cinstruction_new 0x8dbd) = 1"
  "c_funct6 (cinstruction_new 0x9d9d) AND 4 \<noteq> 0 \<and> c_funct2 (cinstruction_new 0x9d9d) = 0"
  "c_funct6 (cinstruction_new 0x9dbd) AND 4 \<noteq> 0 \<and> c_funct2 (cinstruction_new 0x9dbd) = 1"
  by code_simp+

lemma c_alu_words:
  "scast (10 - 3 :: u32) = (7 :: u64)" "scast (10 + 3 :: u32) = (13 :: u64)"
  "scast (ucast (0xffffffff00000001 :: u64) + ucast (0xffffffffffffffff :: u64) :: u32) = (0 :: u64)"
  by code_simp+

lemma rvc_tests: "c_alu h" "c_jalr_jumps_and_saves_return_address h" "nz_error_on_zero_immediate"
proof -
  obtain b where b: "test_cpu h = Inr (cpu_new 0, b)" using test_cpu_builds by blast
  show "c_alu h"
    using c_alu_fields c_alu_words
    by (simp add: c_alu_def b c_alu_case_def rvc_test_simps rvc_execute_def rvc_quadrant1_def rvc_alu_def Let_def)
  have "c_op (cinstruction_new 0x9502) = 2 \<and> c_funct3 (cinstruction_new 0x9502) = 4 \<and> c_bit12 (cinstruction_new 0x9502) = 1
      \<and> c_rs1 (cinstruction_new 0x9502) = 10 \<and> c_rs2 (cinstruction_new 0x9502) = 0 \<and> c_rd (cinstruction_new 0x9502) = 10"
    by code_simp
  then show "c_jalr_jumps_and_saves_return_address h"
    by (simp add: c_jalr_jumps_and_saves_return_address_def b rvc_test_simps rvc_execute_def rvc_quadrant2_def Let_def)
  show "nz_error_on_zero_immediate" unfolding nz_error_on_zero_immediate_def by code_simp
qed

end
