(* ===== verification/Spec2Isabelle.thy ===== *)
theory Spec2Isabelle
  imports Command_Line Boot_Rom Virtio_Queue Atomics Isa_Compressed Unit_Tests
begin

text \<open>
  Verification of \<^verbatim>\<open>rv64rs\<close>, the RISC-V emulator in \<^verbatim>\<open>src/rv64rs/src\<close>: RV64IM with compressed
  instructions, AMOSWAP.W, CSRs and traps in three privilege modes, Sv39 translation with a TLB, and a
  board with CLINT, UART, PLIC and a VirtIO block device that boots xv6 on up to 32 harts.

  \<^bold>\<open>The program and how its parts interact.\<close> A hart (\<open>Cpu\<close>) owns its registers, CSRs and TLB. One step
  ticks the CLINT, polls the UART every 4096 fetches, samples and takes interrupts, translates the pc,
  fetches four bytes from the bus, decodes and executes. Loads and stores go through translation to
  the bus, which dispatches by address to memories it owns and to devices shared by reference. The
  VirtIO device does its DMA through the very bus that is writing to it. The PLIC asks the devices
  for their interrupt lines. An emulator builds bus, devices and harts and steps the harts in turn; the
  command line builds emulators from files and reports how they stop.

  \<^bold>\<open>Conventions.\<close> Integers are words of their width and wrap, as in a release build. An operation is a
  function of type \<open>('s, 'a) op\<close> from a state to a result and a new state; \<open>and_then\<close> is the sequencing
  of \<open>?\<close>. A fault is either \<open>Emu e\<close>, the \<open>EmuError\<close> with one constructor per message, or \<open>Panic p\<close>, a
  Rust panic (index, slice, unwrap, second \<open>RefCell\<close> borrow). The state after a fault is kept, so
  theorems speak about it too. Devices behind \<open>Rc<RefCell<_>>\<close> live in a store (\<open>heap\<close>) and are
  named by addresses, the borrow flag of the VirtIO cell included. Readers and writers are byte
  sequences, file contents a parameter.

  \<^bold>\<open>Theories.\<close>
  \<^item> \<open>Prelude\<close>: faults, sequencing, invariants of operations (\<open>keeps\<close>, \<open>agrees\<close>), words and
    little-endian bytes (\<^verbatim>\<open>error.rs\<close>). \<open>Interfaces\<close>: the locales \<open>mmio_device\<close>, \<open>byte_memory\<close> and
    \<open>page_cache\<close>.
  \<^item> \<open>Register\<close>, \<open>Csr\<close>, \<open>Decode\<close>, \<open>Asm\<close>: register file, CSR file, decoder, encoders. Decoding inverts
    the encoders; the decoded fields are in range.
  \<^item> \<open>Ram\<close>, \<open>Clint\<close>, \<open>Uart\<close>, \<open>Plic\<close>: the devices, each an instance of \<open>mmio_device\<close>, with store/load laws
    (\<open>Ram\<close> is a \<open>byte_memory\<close>), the timer, the receive queue, and the PLIC's claim as the best interrupt
    that wants service.
  \<^item> \<open>Range_Manager\<close>, \<open>Bus\<close>: address ranges and dispatch (\<^verbatim>\<open>bus.rs\<close>). Lookup against the set of
    entries; what reservation guarantees and what it leaves unchecked; main memory behind the bus
    is a \<open>byte_memory\<close>; the mutual recursion of bus and device writes; what a read may change.
  \<^item> \<open>Virtio\<close>, \<open>Virtio_Queue\<close>: the block device over an abstract bus, its two loops with their termination,
    and the queue protocol from notification to completion.
  \<^item> \<open>Cpu_State\<close>, \<open>Trap\<close>, \<open>Mmu\<close>: hart state and TLB (a \<open>page_cache\<close>), CSR aliases, trap delivery and
    interrupt selection, and translation as a refinement of Sv39, specified over the bits of the
    address and of the page-table entries; memory through virtual addresses.
  \<^item> \<open>Execute\<close>, \<open>Rvc\<close>, \<open>Rvc_Expansion\<close>, \<open>Isa_Compressed\<close>, \<open>Atomics\<close>: the two interpreters.
    Division and multiplication against integer arithmetic, trap and return, the compressed
    interpreter against the table of the C extension, AMOSWAP.W as a lock, with paging off or on.
  \<^item> \<open>Cpu\<close>, \<open>Hart_Contract\<close>, \<open>Emulator\<close>, \<open>Machine_Invariants\<close>: fetch and step; the locale
    \<open>hart_contract\<close>, in which a property kept by the primitive changes is kept by whole steps;
    construction of the two machines, and what it makes of a program below the devices; invariants of every interleaving of harts, and that the
    plain machine never panics.
  \<^item> \<open>Program_Runs\<close>, \<open>Boot_Rom\<close>, \<open>Command_Line\<close>: programs run to their end on the model: the stack
    demo, the boot ROM on all harts; the commands, arguments and limits of \<^verbatim>\<open>main.rs\<close>.
  \<^item> \<open>Unit_Tests\<close>: the unit tests of the source files pass on the model.

  \<^bold>\<open>Loops and bounds.\<close> The loops that need not end (\<open>emulator_run\<close>, \<open>xv6_run\<close>, \<open>boot_loop\<close>,
  \<open>shell_loop\<close>) are partial functions whose \<open>None\<close> is running forever; the last two are shown to end
  when a limit is given. The page-table walk counts down its three levels. The descriptor walk ends
  because its set of seen descriptors grows within 65536 of them, the queue loop because the distance
  of two 16-bit indices shrinks. No fuel is used.

  \<^bold>\<open>Not modelled.\<close> Elapsed times and the wording of printed lines; exhaustion of host memory; overflow
  checks of a debug build; the failure of writes to standard output; the count of rounds past
  \<open>2 ^ 64\<close>. \<^verbatim>\<open>lib.rs\<close> only lists modules. The Python emulator in \<^verbatim>\<open>src/riscvm\<close> and the integration tests
  in \<^verbatim>\<open>src/rv64rs/tests\<close> are outside the development.

  \<^bold>\<open>Next.\<close> The integration tests on the model (page tables, traps, SMP hand-over); queues with several
  outstanding requests; the absence of panics on the xv6 machine, away from the self-DMA of the
  VirtIO device; memory-mapped ring wrap-around.
\<close>

end
